theory Spec2Isabelle
  imports Main
begin

section \<open>LocalStorageCredentialsProvider\<close>

text \<open>
  The credentials provider of the browser bootstrap keeps an array of credentials in
  memory (\<open>_credentials\<close>, loaded lazily by the \<open>credentials\<close> getter) and mirrors
  it into \<open>window.localStorage\<close> under one key. \<open>JSON.parse\<close> and
  \<open>JSON.stringify\<close> are built-ins of the runtime and are taken as parameters:
  \<open>parse\<close> answers \<open>None\<close> where \<open>JSON.parse\<close> throws or where the parsed
  value is not an array (both paths leave the getter with the empty array), and
  otherwise the array of credentials that was read. \<open>localStorage\<close> is a partial map
  from keys to strings that accepts every write.
\<close>

record ICredential =
  service :: string
  account :: string
  password :: string

record LocalStorageCredentialsProvider =
  u_credentials :: "ICredential list option"
  localStorage :: "string \<rightharpoonup> string"

definition CREDENTIALS_OPENED_KEY :: string where
  "CREDENTIALS_OPENED_KEY = ''credentials.provider''"

definition credentials ::
  "(string \<Rightarrow> ICredential list option) \<Rightarrow> LocalStorageCredentialsProvider
     \<Rightarrow> ICredential list \<times> LocalStorageCredentialsProvider" where
  "credentials parse p =
     (case u_credentials p of
        Some cs \<Rightarrow> (cs, p)
      | None \<Rightarrow>
          (let loaded =
                 (case localStorage p CREDENTIALS_OPENED_KEY of
                    None \<Rightarrow> None
                  | Some serializedCredentials \<Rightarrow>
                      if serializedCredentials \<noteq> [] then parse serializedCredentials else None);
               cs = (case loaded of Some cs \<Rightarrow> cs | None \<Rightarrow> [])
           in (cs, p\<lparr>u_credentials := Some cs\<rparr>)))"

definition save ::
  "(string \<Rightarrow> ICredential list option) \<Rightarrow> (ICredential list \<Rightarrow> string)
     \<Rightarrow> LocalStorageCredentialsProvider \<Rightarrow> LocalStorageCredentialsProvider" where
  "save parse stringify p =
     (case credentials parse p of
        (cs, p1) \<Rightarrow> p1\<lparr>localStorage := (localStorage p1)(CREDENTIALS_OPENED_KEY \<mapsto> stringify cs)\<rparr>)"

text \<open>
  The loop of \<open>doGetPassword\<close>: the first credential of the service whose account
  matches (or any account, when none is asked for) decides.
\<close>

fun doGetPassword_loop :: "string \<Rightarrow> string option \<Rightarrow> ICredential list \<Rightarrow> string option" where
  "doGetPassword_loop svc acct [] = None"
| "doGetPassword_loop svc acct (credential # rest) =
     (if service credential = svc
      then (if acct = None \<or> acct = Some (account credential)
            then Some (password credential)
            else doGetPassword_loop svc acct rest)
      else doGetPassword_loop svc acct rest)"

definition doGetPassword ::
  "(string \<Rightarrow> ICredential list option) \<Rightarrow> string \<Rightarrow> string option
     \<Rightarrow> LocalStorageCredentialsProvider \<Rightarrow> string option \<times> LocalStorageCredentialsProvider" where
  "doGetPassword parse svc acct p =
     (case credentials parse p of (cs, p1) \<Rightarrow> (doGetPassword_loop svc acct cs, p1))"

definition getPassword ::
  "(string \<Rightarrow> ICredential list option) \<Rightarrow> string \<Rightarrow> string
     \<Rightarrow> LocalStorageCredentialsProvider \<Rightarrow> string option \<times> LocalStorageCredentialsProvider" where
  "getPassword parse svc acct p = doGetPassword parse svc (Some acct) p"

definition findPassword ::
  "(string \<Rightarrow> ICredential list option) \<Rightarrow> string
     \<Rightarrow> LocalStorageCredentialsProvider \<Rightarrow> string option \<times> LocalStorageCredentialsProvider" where
  "findPassword parse svc p = doGetPassword parse svc None p"

text \<open>
  \<open>deletePassword\<close> has no \<open>await\<close>: called from \<open>setPassword\<close> without one, its
  whole body still runs before the \<open>push\<close>. The filter callback sets \<open>found\<close> at
  every credential it drops.
\<close>

definition deletePassword ::
  "(string \<Rightarrow> ICredential list option) \<Rightarrow> (ICredential list \<Rightarrow> string) \<Rightarrow> string \<Rightarrow> string
     \<Rightarrow> LocalStorageCredentialsProvider \<Rightarrow> bool \<times> LocalStorageCredentialsProvider" where
  "deletePassword parse stringify svc acct p =
     (case credentials parse p of
        (cs, p1) \<Rightarrow>
          (let found = list_ex (\<lambda>credential. service credential = svc \<and> account credential = acct) cs;
               p2 = p1\<lparr>u_credentials :=
                        Some (filter (\<lambda>credential. \<not> (service credential = svc \<and> account credential = acct)) cs)\<rparr>
           in (found, if found then save parse stringify p2 else p2)))"

definition setPassword ::
  "(string \<Rightarrow> ICredential list option) \<Rightarrow> (ICredential list \<Rightarrow> string) \<Rightarrow> string \<Rightarrow> string \<Rightarrow> string
     \<Rightarrow> LocalStorageCredentialsProvider \<Rightarrow> LocalStorageCredentialsProvider" where
  "setPassword parse stringify svc acct pw p =
     (case deletePassword parse stringify svc acct p of
        (_, p1) \<Rightarrow>
          (case credentials parse p1 of
             (cs, p2) \<Rightarrow>
               save parse stringify
                 (p2\<lparr>u_credentials := Some (cs @ [\<lparr>service = svc, account = acct, password = pw\<rparr>])\<rparr>)))"

definition findCredentials ::
  "(string \<Rightarrow> ICredential list option) \<Rightarrow> string
     \<Rightarrow> LocalStorageCredentialsProvider \<Rightarrow> (string \<times> string) list \<times> LocalStorageCredentialsProvider" where
  "findCredentials parse svc p =
     (case credentials parse p of
        (cs, p1) \<Rightarrow>
          (map (\<lambda>c. (account c, password c)) (filter (\<lambda>credential. service credential = svc) cs), p1))"

text \<open>The array the getter hands out in a given state, and the key of a credential.\<close>

definition stored ::
  "(string \<Rightarrow> ICredential list option) \<Rightarrow> LocalStorageCredentialsProvider \<Rightarrow> ICredential list" where
  "stored parse p = fst (credentials parse p)"

definition is_for :: "string \<Rightarrow> string \<Rightarrow> ICredential \<Rightarrow> bool" where
  "is_for svc acct c = (service c = svc \<and> account c = acct)"

definition pair_of :: "ICredential \<Rightarrow> string \<times> string" where
  "pair_of c = (service c, account c)"

definition fresh_provider :: LocalStorageCredentialsProvider where
  "fresh_provider = \<lparr>u_credentials = None, localStorage = Map.empty\<rparr>"

section \<open>getConfirmMessage\<close>

text \<open>
  \<open>getConfirmMessage\<close> of the dialogs module builds an array of lines and joins it
  with newlines. \<open>basename\<close> (of the resources module) is a parameter. \<open>localize\<close>
  (of the nls module) is not part of the sources at hand.
\<close>

definition MAX_CONFIRM_FILES :: nat where
  "MAX_CONFIRM_FILES = 10"

definition digit_char :: "nat \<Rightarrow> char" where
  "digit_char d = char_of (48 + d)"

function string_of_nat :: "nat \<Rightarrow> string" where
  "string_of_nat n =
     (if n < 10 then [digit_char n] else string_of_nat (n div 10) @ [digit_char (n mod 10)])"
  by pat_completeness auto
termination
  by (relation "measure id") auto

definition nat_of_string :: "string \<Rightarrow> nat" where
  "nat_of_string ds = foldl (\<lambda>acc c. 10 * acc + (of_char c - 48)) 0 ds"

function format0 :: "string \<Rightarrow> string \<Rightarrow> string" where
  "format0 [] arg = []"
| "format0 (c # cs) arg =
     (if take 3 (c # cs) = ''{0}'' then arg @ format0 (drop 2 cs) arg else c # format0 cs arg)"
  by pat_completeness auto
termination
  by (relation "measure (\<lambda>(m, a). length m)") auto

text \<open>
  Modelled from the spec: \<open>localize\<close> of \<open>vs/nls\<close> is missing from the sources. It is
  taken in its untranslated form: the default message, with the placeholder \<open>{0}\<close>
  replaced by the decimal rendering of the argument, when there is one.
\<close>

definition localize :: "string \<Rightarrow> string \<Rightarrow> nat option \<Rightarrow> string" where
  "localize key message arg =
     (case arg of None \<Rightarrow> message | Some n \<Rightarrow> format0 message (string_of_nat n))"

fun join :: "string \<Rightarrow> string list \<Rightarrow> string" where
  "join sep [] = []"
| "join sep [l] = l"
| "join sep (l # m # ls) = l @ sep @ join sep (m # ls)"

text \<open>The array \<open>message\<close> as it stands before the final \<open>join\<close>.\<close>

definition confirm_lines :: "('u \<Rightarrow> string) \<Rightarrow> string \<Rightarrow> 'u list \<Rightarrow> string list" where
  "confirm_lines basename start resourcesToConfirm =
     (let message = [start];
          message = message @ [[]];
          message = message @ map (\<lambda>r. basename r) (take MAX_CONFIRM_FILES resourcesToConfirm);
          message =
            (if length resourcesToConfirm > MAX_CONFIRM_FILES
             then (if length resourcesToConfirm - MAX_CONFIRM_FILES = 1
                   then message @ [localize ''moreFile'' ''...1 additional file not shown'' None]
                   else message @ [localize ''moreFiles'' ''...{0} additional files not shown''
                                     (Some (length resourcesToConfirm - MAX_CONFIRM_FILES))])
             else message);
          message = message @ [[]]
      in message)"

definition getConfirmMessage :: "('u \<Rightarrow> string) \<Rightarrow> string \<Rightarrow> 'u list \<Rightarrow> string" where
  "getConfirmMessage basename start resourcesToConfirm =
     join [CHR 0x0A] (confirm_lines basename start resourcesToConfirm)"

section \<open>TrustedDomainsContentProvider\<close>

text \<open>
  The provider reads and writes one key of the storage service. What the runtime and
  the modules outside the sources do is taken as parameters: \<open>content.toString()\<close>
  of the bytes that \<open>writeFile\<close> is given, \<open>Buffer.from(text, 'utf-8')\<close>,
  \<open>parse\<close> of \<open>vs/base/common/json\<close>, and the built-in \<open>JSON.parse\<close>
  (\<open>None\<close> where it throws) and \<open>JSON.stringify\<close>, once compact and once with the
  indentation of two that \<open>readFile\<close> asks for. A call of \<open>parse\<close> throws, or
  returns a value, or returns \<open>undefined\<close>: the parser of that module is the
  fault-tolerant one, which records the errors of a malformed text and returns what it
  could read of it, \<open>undefined\<close> when that is nothing. \<open>JSON.stringify\<close> of
  \<open>undefined\<close> is \<open>undefined\<close>. Neither \<open>readFile\<close> nor \<open>writeFile\<close> looks at
  the resource or at the options it is given, so they are left out.
\<close>

datatype json =
    JNull
  | JBool bool
  | JNumber int
  | JString string
  | JArray "json list"
  | JObject "(string \<times> json) list"

datatype parse_result =
    Throws
  | Returns "json option"

record json_functions =
  content_toString :: "string \<Rightarrow> string"
  Buffer_from :: "string \<Rightarrow> string"
  jsonc_parse :: "string \<Rightarrow> parse_result"
  JSON_parse :: "string \<Rightarrow> json option"
  JSON_stringify :: "json \<Rightarrow> string"
  JSON_stringify_2 :: "json \<Rightarrow> string"

datatype StorageScope = GLOBAL | WORKSPACE

text \<open>
  The provider's view of its collaborators: the list of the product service, what the
  storage service holds, and the calls of \<open>store\<close> it has received, with the value
  as it was handed over (\<open>None\<close> for \<open>undefined\<close>).
\<close>

record TrustedDomainsContentProvider =
  linkProtectionTrustedDomains :: "string list option"
  storage :: "(string \<times> StorageScope) \<rightharpoonup> string"
  store_calls :: "(string \<times> string option \<times> StorageScope) list"

definition TRUSTED_DOMAINS_KEY :: string where
  "TRUSTED_DOMAINS_KEY = ''http.linkProtectionTrustedDomains''"

text \<open>
  Modelled from the spec: the storage service is missing from the sources. It is the
  key/value store of the specification: \<open>get\<close> answers the string stored last under
  a key and scope, and a \<open>store\<close> of \<open>undefined\<close> leaves no string under the key.
\<close>

definition store ::
  "string \<Rightarrow> string option \<Rightarrow> StorageScope \<Rightarrow> TrustedDomainsContentProvider
     \<Rightarrow> TrustedDomainsContentProvider" where
  "store key val scope p =
     p\<lparr>store_calls := store_calls p @ [(key, val, scope)],
       storage := (case val of
                     Some v \<Rightarrow> (storage p)((key, scope) \<mapsto> v)
                   | None \<Rightarrow> (storage p)((key, scope) := None))\<rparr>"

definition get :: "string \<Rightarrow> StorageScope \<Rightarrow> TrustedDomainsContentProvider \<Rightarrow> string option" where
  "get key scope p = storage p (key, scope)"

definition readFile :: "json_functions \<Rightarrow> TrustedDomainsContentProvider \<Rightarrow> string" where
  "readFile js p =
     (let trustedDomains =
            (case linkProtectionTrustedDomains p of
               Some ds \<Rightarrow> JArray (map JString ds)
             | None \<Rightarrow> JArray []);
          trustedDomains =
            (case get TRUSTED_DOMAINS_KEY GLOBAL p of
               None \<Rightarrow> trustedDomains
             | Some trustedDomainsSrc \<Rightarrow>
                 if trustedDomainsSrc \<noteq> []
                 then (case JSON_parse js trustedDomainsSrc of
                         Some v \<Rightarrow> v
                       | None \<Rightarrow> trustedDomains)
                 else trustedDomains);
          trustedDomainsContent = JSON_stringify_2 js trustedDomains;
          buf = Buffer_from js trustedDomainsContent
      in buf)"

text \<open>
  \<open>trustedDomainsd\<close> starts as the empty array and is assigned what \<open>parse\<close>
  returns, whatever that is; only a throw leaves the empty array in place.
\<close>

definition writeFile ::
  "json_functions \<Rightarrow> string \<Rightarrow> TrustedDomainsContentProvider \<Rightarrow> TrustedDomainsContentProvider" where
  "writeFile js content p =
     (let trustedDomainsd =
            (case jsonc_parse js (content_toString js content) of
               Throws \<Rightarrow> Some (JArray [])
             | Returns r \<Rightarrow> r)
      in store TRUSTED_DOMAINS_KEY (map_option (JSON_stringify js) trustedDomainsd) GLOBAL p)"

section \<open>PollingURLCallbackProvider: the redirect URI\<close>

text \<open>
  Strings are byte strings holding UTF-8 text. \<open>encodeURIComponent\<close> keeps the
  unreserved characters of the ECMAScript definition and writes every other byte as
  a percent sign and two upper-case hexadecimal digits. (On such strings it never
  throws: the lone surrogates that make it throw have no UTF-8 form.)
\<close>

definition uri_unreserved :: "char \<Rightarrow> bool" where
  "uri_unreserved c =
     (c \<in> set (''ABCDEFGHIJKLMNOPQRSTUVWXYZabcdefghijklmnopqrstuvwxyz0123456789-_.!~*()'' @ [CHR 0x27]))"

definition hex_digit :: "nat \<Rightarrow> char" where
  "hex_digit d = (if d < 10 then char_of (48 + d) else char_of (55 + d))"

definition percent_encode :: "char \<Rightarrow> string" where
  "percent_encode c = [CHR ''%'', hex_digit (of_char c div 16), hex_digit (of_char c mod 16)]"

definition encodeURIComponent :: "string \<Rightarrow> string" where
  "encodeURIComponent v = concat (map (\<lambda>c. if uri_unreserved c then [c] else percent_encode c) v)"

record URI =
  scheme :: string
  authority :: string
  path :: string
  query :: string
  fragment :: string

text \<open>
  \<open>Partial<UriComponents>\<close>: every component may be undefined. An undefined
  \<open>options\<close> destructures into five undefined components.
\<close>

record UriComponents =
  scheme_opt :: "string option"
  authority_opt :: "string option"
  path_opt :: "string option"
  query_opt :: "string option"
  fragment_opt :: "string option"

definition no_components :: UriComponents where
  "no_components =
     \<lparr>scheme_opt = None, authority_opt = None, path_opt = None, query_opt = None, fragment_opt = None\<rparr>"

definition FETCH_INTERVAL :: int where
  "FETCH_INTERVAL = 500"

definition FETCH_TIMEOUT :: int where
  "FETCH_TIMEOUT = 5 * 60 * 1000"

definition REQUEST_ID :: string where "REQUEST_ID = ''vscode-requestId''"
definition SCHEME :: string where "SCHEME = ''vscode-scheme''"
definition AUTHORITY :: string where "AUTHORITY = ''vscode-authority''"
definition PATH :: string where "PATH = ''vscode-path''"
definition QUERY :: string where "QUERY = ''vscode-query''"
definition FRAGMENT :: string where "FRAGMENT = ''vscode-fragment''"

text \<open>
  A JavaScript \<open>Map\<close> keeps its entries in insertion order; \<open>set\<close> on a key that is
  there replaces the value in place.
\<close>

fun Map_set :: "string \<Rightarrow> string \<Rightarrow> (string \<times> string) list \<Rightarrow> (string \<times> string) list" where
  "Map_set k v [] = [(k, v)]"
| "Map_set k v ((k', v') # m) = (if k' = k then (k, v) # m else (k', v') # Map_set k v m)"

text \<open>
  \<open>URI.parse(window.location.href)\<close> is the parameter \<open>location\<close>. \<open>with\<close>
  replaces the components it is given and keeps the others; an undefined query
  keeps the query of the location.
\<close>

definition URI_with :: "URI \<Rightarrow> string \<Rightarrow> string option \<Rightarrow> URI" where
  "URI_with u pth qry =
     u\<lparr>path := pth, query := (case qry of None \<Rightarrow> query u | Some q \<Rightarrow> q)\<rparr>"

text \<open>One round of the \<open>forEach\<close> of \<open>doCreateUri\<close>, on the pair of \<open>query\<close> and \<open>index\<close>.\<close>

definition doCreateUri_each ::
  "string \<times> string \<Rightarrow> string option \<times> nat \<Rightarrow> string option \<times> nat" where
  "doCreateUri_each entry acc =
     (case entry of (key, value) \<Rightarrow>
        (case acc of (qry, index) \<Rightarrow>
           (let qry = (case qry of None \<Rightarrow> [] | Some q \<Rightarrow> q);
                prefix = (if index = 0 then [] else ''&'')
            in (Some (qry @ prefix @ key @ ''='' @ encodeURIComponent value), index + 1))))"

definition doCreateUri :: "URI \<Rightarrow> string \<Rightarrow> (string \<times> string) list \<Rightarrow> URI" where
  "doCreateUri location pth queryValues =
     URI_with location pth (fst (fold doCreateUri_each queryValues (None, 0)))"

text \<open>\<open>if (component) queryValues.set(KEY, component)\<close>: undefined and the empty string are falsy.\<close>

definition set_if_truthy ::
  "string \<Rightarrow> string option \<Rightarrow> (string \<times> string) list \<Rightarrow> (string \<times> string) list" where
  "set_if_truthy key component queryValues =
     (case component of
        None \<Rightarrow> queryValues
      | Some v \<Rightarrow> if v \<noteq> [] then Map_set key v queryValues else queryValues)"

definition create_queryValues :: "UriComponents option \<Rightarrow> string \<Rightarrow> (string \<times> string) list" where
  "create_queryValues options requestId =
     (let queryValues = [];
          queryValues = Map_set REQUEST_ID requestId queryValues;
          components = (case options of Some given \<Rightarrow> given | None \<Rightarrow> no_components);
          queryValues = set_if_truthy SCHEME (scheme_opt components) queryValues;
          queryValues = set_if_truthy AUTHORITY (authority_opt components) queryValues;
          queryValues = set_if_truthy PATH (path_opt components) queryValues;
          queryValues = set_if_truthy QUERY (query_opt components) queryValues;
          queryValues = set_if_truthy FRAGMENT (fragment_opt components) queryValues
      in queryValues)"

section \<open>PollingURLCallbackProvider: polling\<close>

text \<open>
  \<open>periodicFetchCallback\<close> is an \<open>async\<close> function: it runs to its first
  \<open>await\<close>, is resumed when the response has been buffered, and leaves a timer
  behind when it wants another round. The provider's state lists what is suspended
  for each \<open>requestId\<close> (the \<open>startTime\<close> travels with it, as in the closure),
  and what the provider has done so far: the requests it issued (with the time of
  issue), the payloads fired on \<open>onCallback\<close>, the errors written to the console,
  and the rejections nobody handled. \<open>JSON.parse\<close> is the parameter \<open>parse\<close>
  (\<open>None\<close> where it throws); firing the emitter does not throw.
\<close>

datatype ticket =
    AwaitingResponse int
  | AwaitingTimer int int

record 'p PollingURLCallbackProvider =
  tickets :: "string \<rightharpoonup> ticket"
  requests :: "(string \<times> URI \<times> int) list"
  fired :: "'p list"
  console_errors :: nat
  unhandled_rejections :: nat

text \<open>Up to the first \<open>await\<close>: the request goes out at the time \<open>now\<close>.\<close>

definition periodicFetchCallback ::
  "URI \<Rightarrow> string \<Rightarrow> int \<Rightarrow> int \<Rightarrow> 'p PollingURLCallbackProvider \<Rightarrow> 'p PollingURLCallbackProvider" where
  "periodicFetchCallback location requestId startTime now s =
     (let queryValues = [];
          queryValues = Map_set REQUEST_ID requestId queryValues;
          url = doCreateUri location ''/fetch-callback'' queryValues
      in s\<lparr>requests := requests s @ [(requestId, url, now)],
            tickets := (tickets s)(requestId \<mapsto> AwaitingResponse startTime)\<rparr>)"

text \<open>
  After the two \<open>await\<close>s: \<open>content\<close> is the buffered body and \<open>now\<close> what
  \<open>Date.now()\<close> answers then.
\<close>

definition periodicFetchCallback_resume ::
  "(string \<Rightarrow> 'p option) \<Rightarrow> string \<Rightarrow> int \<Rightarrow> string \<Rightarrow> int
     \<Rightarrow> 'p PollingURLCallbackProvider \<Rightarrow> 'p PollingURLCallbackProvider" where
  "periodicFetchCallback_resume parse requestId startTime content now s =
     (if length content > 0
      then (case parse content of
              Some payload \<Rightarrow> s\<lparr>fired := fired s @ [payload], tickets := (tickets s)(requestId := None)\<rparr>
            | None \<Rightarrow> s\<lparr>console_errors := console_errors s + 1, tickets := (tickets s)(requestId := None)\<rparr>)
      else if now - startTime < FETCH_TIMEOUT
      then s\<lparr>tickets := (tickets s)(requestId \<mapsto> AwaitingTimer startTime (now + FETCH_INTERVAL))\<rparr>
      else s\<lparr>tickets := (tickets s)(requestId := None)\<rparr>)"

text \<open>The request (or the buffering of its stream) rejects: no handler is in place.\<close>

definition periodicFetchCallback_reject ::
  "string \<Rightarrow> 'p PollingURLCallbackProvider \<Rightarrow> 'p PollingURLCallbackProvider" where
  "periodicFetchCallback_reject requestId s =
     s\<lparr>unhandled_rejections := unhandled_rejections s + 1, tickets := (tickets s)(requestId := None)\<rparr>"

text \<open>
  \<open>create\<close>, with what \<open>generateUuid()\<close> and \<open>Date.now()\<close> answer as the
  parameters \<open>requestId\<close> and \<open>now\<close>.
\<close>

definition create ::
  "URI \<Rightarrow> UriComponents option \<Rightarrow> string \<Rightarrow> int \<Rightarrow> 'p PollingURLCallbackProvider
     \<Rightarrow> URI \<times> 'p PollingURLCallbackProvider" where
  "create location options requestId now s =
     (let queryValues = create_queryValues options requestId;
          s = periodicFetchCallback location requestId now now s
      in (doCreateUri location ''/callback'' queryValues, s))"

subsection \<open>The event loop\<close>

text \<open>
  What the runtime can do to the provider: call \<open>create\<close>, deliver the buffered
  response of a pending request, reject a pending request, or run a timer that is
  due. An event that nothing is waiting for changes nothing; \<open>generateUuid\<close> does
  not hand out the identifier of a ticket that is still polling.
\<close>

datatype event =
    Create "UriComponents option" string int
  | Response string string int
  | Rejection string
  | Timer string int

fun step ::
  "(string \<Rightarrow> 'p option) \<Rightarrow> URI \<Rightarrow> event \<Rightarrow> 'p PollingURLCallbackProvider \<Rightarrow> 'p PollingURLCallbackProvider" where
  "step parse location (Create options requestId now) s =
     (if tickets s requestId \<noteq> None then s else snd (create location options requestId now s))"
| "step parse location (Response requestId content now) s =
     (case tickets s requestId of
        Some (AwaitingResponse startTime) \<Rightarrow> periodicFetchCallback_resume parse requestId startTime content now s
      | _ \<Rightarrow> s)"
| "step parse location (Rejection requestId) s =
     (case tickets s requestId of
        Some (AwaitingResponse startTime) \<Rightarrow> periodicFetchCallback_reject requestId s
      | _ \<Rightarrow> s)"
| "step parse location (Timer requestId now) s =
     (case tickets s requestId of
        Some (AwaitingTimer startTime due) \<Rightarrow>
          if due \<le> now then periodicFetchCallback location requestId startTime now s else s
      | _ \<Rightarrow> s)"

definition run ::
  "(string \<Rightarrow> 'p option) \<Rightarrow> URI \<Rightarrow> event list \<Rightarrow> 'p PollingURLCallbackProvider \<Rightarrow> 'p PollingURLCallbackProvider" where
  "run parse location evs s = fold (step parse location) evs s"

fun ticket_of :: "event \<Rightarrow> string" where
  "ticket_of (Create options requestId now) = requestId"
| "ticket_of (Response requestId content now) = requestId"
| "ticket_of (Rejection requestId) = requestId"
| "ticket_of (Timer requestId now) = requestId"

fun is_create :: "event \<Rightarrow> bool" where
  "is_create (Create options requestId now) = True"
| "is_create e = False"

text \<open>What belongs to one ticket: its suspended state and the requests issued for it.\<close>

definition requests_of :: "string \<Rightarrow> 'p PollingURLCallbackProvider \<Rightarrow> (string \<times> URI \<times> int) list" where
  "requests_of requestId s = filter (\<lambda>r. fst r = requestId) (requests s)"

definition ticket_view ::
  "string \<Rightarrow> 'p PollingURLCallbackProvider \<Rightarrow> ticket option \<times> (string \<times> URI \<times> int) list" where
  "ticket_view requestId s = (tickets s requestId, requests_of requestId s)"

subsection \<open>One poll sequence, from its first request to its end\<close>

text \<open>
  The server and the timers as the sequence meets them: the \<open>k\<close>-th request is
  never answered, or rejected, or answered with a body that is buffered \<open>latency\<close>
  milliseconds after the request went out; a timer set then runs \<open>lag\<close>
  milliseconds after it is due. Both are natural numbers: the clock does not run
  backwards, and a timer does not run early. \<open>poll\<close> issues the request at the
  time \<open>t\<close>, resumes the function with the \<open>k\<close>-th reply and, when that leaves
  a timer behind, runs the timer and goes on with the next request. It returns the
  state the provider is left in and the branch that ended the sequence: the
  \<open>return\<close> after a body that is not empty, the timeout test that fails, or the
  rejection. At a request that is never answered the function stays suspended at its
  \<open>await\<close> (\<open>request\<close> is given no timeout, and the timeout of the provider is
  tested only after a response): the sequence does not end, and the result is
  \<open>None\<close>.
\<close>

datatype reply =
    Body string nat nat
  | Rejected
  | Unanswered

datatype route = ByData | ByTimeout | ByRejection

function poll ::
  "(string \<Rightarrow> 'p option) \<Rightarrow> URI \<Rightarrow> (nat \<Rightarrow> reply) \<Rightarrow> nat \<Rightarrow> string \<Rightarrow> int \<Rightarrow> int
     \<Rightarrow> 'p PollingURLCallbackProvider \<Rightarrow> route option \<times> 'p PollingURLCallbackProvider" where
  "poll parse location env k requestId startTime t s =
     (case env k of
        Unanswered \<Rightarrow> (None, periodicFetchCallback location requestId startTime t s)
      | Rejected \<Rightarrow>
          (Some ByRejection,
           periodicFetchCallback_reject requestId (periodicFetchCallback location requestId startTime t s))
      | Body content latency lag \<Rightarrow>
          (case tickets (periodicFetchCallback_resume parse requestId startTime content (t + int latency)
                           (periodicFetchCallback location requestId startTime t s)) requestId of
             Some (AwaitingTimer startTime' due) \<Rightarrow>
               poll parse location env (Suc k) requestId startTime' (due + int lag)
                 (periodicFetchCallback_resume parse requestId startTime content (t + int latency)
                    (periodicFetchCallback location requestId startTime t s))
           | _ \<Rightarrow>
               (Some (if length content > 0 then ByData else ByTimeout),
                periodicFetchCallback_resume parse requestId startTime content (t + int latency)
                  (periodicFetchCallback location requestId startTime t s))))"
  by pat_completeness auto
termination
proof (relation "measure (\<lambda>(parse, location, env, k, requestId, startTime, t, s). nat (startTime + FETCH_TIMEOUT - t))")
  show "wf (measure (\<lambda>(parse, location, env, k, requestId, startTime, t, s). nat (startTime + FETCH_TIMEOUT - t)))"
    by simp
next
  fix parse :: "string \<Rightarrow> 'p option" and location :: URI and env :: "nat \<Rightarrow> reply"
    and k :: nat and requestId :: string and startTime t :: int
    and s :: "'p PollingURLCallbackProvider" and content latency lag x2 startTime' due
  assume "env k = Body content latency lag"
    and "tickets (periodicFetchCallback_resume parse requestId startTime content (t + int latency)
                    (periodicFetchCallback location requestId startTime t s)) requestId = Some x2"
    and "x2 = AwaitingTimer startTime' due"
  then have "startTime' = startTime \<and> due = t + int latency + FETCH_INTERVAL
      \<and> t + int latency - startTime < FETCH_TIMEOUT"
    by (simp add: periodicFetchCallback_resume_def periodicFetchCallback_def
          split: if_splits option.splits)
  then show "((parse, location, env, Suc k, requestId, startTime', due + int lag,
               periodicFetchCallback_resume parse requestId startTime content (t + int latency)
                 (periodicFetchCallback location requestId startTime t s)),
              (parse, location, env, k, requestId, startTime, t, s))
             \<in> measure (\<lambda>(parse, location, env, k, requestId, startTime, t, s). nat (startTime + FETCH_TIMEOUT - t))"
    by (simp add: FETCH_INTERVAL_def)
qed

text \<open>The times at which the sequence issued its requests: those the log gained.\<close>

definition poll_times ::
  "(string \<Rightarrow> 'p option) \<Rightarrow> URI \<Rightarrow> (nat \<Rightarrow> reply) \<Rightarrow> nat \<Rightarrow> string \<Rightarrow> int \<Rightarrow> int
     \<Rightarrow> 'p PollingURLCallbackProvider \<Rightarrow> int list" where
  "poll_times parse location env k requestId startTime t s =
     map (\<lambda>r. snd (snd r))
       (drop (length (requests s)) (requests (snd (poll parse location env k requestId startTime t s))))"

section \<open>Vocabulary of the properties\<close>

subsection \<open>Trusted domains\<close>

text \<open>
  The list of the product, and the value that \<open>readFile\<close> finds in storage (none
  when the key is missing, the string is empty or \<open>JSON.parse\<close> throws).
\<close>

definition product_default :: "TrustedDomainsContentProvider \<Rightarrow> json" where
  "product_default p =
     (case linkProtectionTrustedDomains p of Some ds \<Rightarrow> JArray (map JString ds) | None \<Rightarrow> JArray [])"

definition stored_value :: "json_functions \<Rightarrow> TrustedDomainsContentProvider \<Rightarrow> json option" where
  "stored_value js p =
     (case storage p (TRUSTED_DOMAINS_KEY, GLOBAL) of
        None \<Rightarrow> None
      | Some src \<Rightarrow> if src = [] then None else JSON_parse js src)"

subsection \<open>The query of the redirect URI, in the words of the specification\<close>

text \<open>
  A component contributes an entry when it is given with a value that is not empty;
  \<open>entry_supplied\<close> is the reading under which every component that is given
  contributes one.
\<close>

definition entry :: "string \<Rightarrow> string option \<Rightarrow> (string \<times> string) list" where
  "entry key component =
     (case component of None \<Rightarrow> [] | Some v \<Rightarrow> if v = [] then [] else [(key, v)])"

definition entry_supplied :: "string \<Rightarrow> string option \<Rightarrow> (string \<times> string) list" where
  "entry_supplied key component = (case component of None \<Rightarrow> [] | Some v \<Rightarrow> [(key, v)])"

definition query_param :: "string \<times> string \<Rightarrow> string" where
  "query_param kv = ''&'' @ fst kv @ ''='' @ encodeURIComponent (snd kv)"

definition given_entries :: "UriComponents option \<Rightarrow> (string \<times> string) list" where
  "given_entries options =
     (case options of
        None \<Rightarrow> []
      | Some c \<Rightarrow>
          entry SCHEME (scheme_opt c) @ entry AUTHORITY (authority_opt c) @ entry PATH (path_opt c)
            @ entry QUERY (query_opt c) @ entry FRAGMENT (fragment_opt c))"

definition supplied_entries :: "UriComponents option \<Rightarrow> (string \<times> string) list" where
  "supplied_entries options =
     (case options of
        None \<Rightarrow> []
      | Some c \<Rightarrow>
          entry_supplied SCHEME (scheme_opt c) @ entry_supplied AUTHORITY (authority_opt c)
            @ entry_supplied PATH (path_opt c) @ entry_supplied QUERY (query_opt c)
            @ entry_supplied FRAGMENT (fragment_opt c))"

definition expected_query :: "UriComponents option \<Rightarrow> string \<Rightarrow> string" where
  "expected_query options requestId =
     REQUEST_ID @ ''='' @ encodeURIComponent requestId @ concat (map query_param (given_entries options))"

definition query_of_supplied :: "UriComponents option \<Rightarrow> string \<Rightarrow> string" where
  "query_of_supplied options requestId =
     REQUEST_ID @ ''='' @ encodeURIComponent requestId @ concat (map query_param (supplied_entries options))"

subsection \<open>Poll sequences\<close>

text \<open>The entry that a request for \<open>requestId\<close> at the time \<open>t\<close> leaves in the log.\<close>

definition fetch :: "URI \<Rightarrow> string \<Rightarrow> int \<Rightarrow> string \<times> URI \<times> int" where
  "fetch location requestId t =
     (requestId, doCreateUri location ''/fetch-callback'' (Map_set REQUEST_ID requestId []), t)"

text \<open>Consecutive times are at least \<open>FETCH_INTERVAL\<close> apart.\<close>

fun spaced :: "int list \<Rightarrow> bool" where
  "spaced (a # b # ts) = (a + FETCH_INTERVAL \<le> b \<and> spaced (b # ts))"
| "spaced ts = True"

text \<open>
  Of the reply to a request that went out at the time \<open>t\<close>: it carries a body that
  is not empty; it makes the sequence set a timer; it is an empty body that comes
  once the timeout has passed.
\<close>

fun has_data :: "reply \<Rightarrow> bool" where
  "has_data (Body content latency lag) = (content \<noteq> [])"
| "has_data Rejected = False"
| "has_data Unanswered = False"

fun retries :: "int \<Rightarrow> reply \<Rightarrow> int \<Rightarrow> bool" where
  "retries startTime (Body content latency lag) t =
     (content = [] \<and> t + int latency - startTime < FETCH_TIMEOUT)"
| "retries startTime Rejected t = False"
| "retries startTime Unanswered t = False"

fun route_of :: "reply \<Rightarrow> route option" where
  "route_of Unanswered = None"
| "route_of Rejected = Some ByRejection"
| "route_of (Body content latency lag) = Some (if content \<noteq> [] then ByData else ByTimeout)"

text \<open>
  The request at the time \<open>t'\<close> is the one that the reply to the request at the
  time \<open>t\<close> brings about: an empty body read in time, then the interval and the lag
  of the timer.
\<close>

fun follows :: "int \<Rightarrow> reply \<Rightarrow> int \<Rightarrow> int \<Rightarrow> bool" where
  "follows startTime (Body content latency lag) t t' =
     (content = [] \<and> t + int latency - startTime < FETCH_TIMEOUT
      \<and> t' = t + int latency + FETCH_INTERVAL + int lag)"
| "follows startTime Rejected t t' = False"
| "follows startTime Unanswered t t' = False"

text \<open>The events that settle a pending request.\<close>

fun is_answer :: "event \<Rightarrow> bool" where
  "is_answer (Response requestId content now) = True"
| "is_answer (Rejection requestId) = True"
| "is_answer e = False"

fun timed_out :: "int \<Rightarrow> reply \<Rightarrow> int \<Rightarrow> bool" where
  "timed_out startTime (Body content latency lag) t =
     (content = [] \<and> FETCH_TIMEOUT \<le> t + int latency - startTime)"
| "timed_out startTime Rejected t = False"
| "timed_out startTime Unanswered t = False"

section \<open>Concrete inputs\<close>

definition here :: URI where
  "here = \<lparr>scheme = ''https'', authority = ''example.com'', path = ''/'', query = [], fragment = []\<rparr>"

definition idle :: "string PollingURLCallbackProvider" where
  "idle = \<lparr>tickets = Map.empty, requests = [], fired = [], console_errors = 0, unhandled_rejections = 0\<rparr>"

text \<open>A stand-in for \<open>JSON.parse\<close>: whatever starts with a brace parses, to itself.\<close>

definition toy_parse :: "string \<Rightarrow> string option" where
  "toy_parse content = (if take 1 content = ''{'' then Some content else None)"

text \<open>One ticket waiting for its first response, and two of them.\<close>

definition waiting :: "string PollingURLCallbackProvider" where
  "waiting = snd (create here None ''r-1'' 0 idle)"

definition two_waiting :: "string PollingURLCallbackProvider" where
  "two_waiting = snd (create here None ''r-2'' 5 (snd (create here None ''r-1'' 0 idle)))"

text \<open>
  Servers: one that answers with an empty body just before five minutes are over,
  one whose requests fail, one that has the callback at the second request, one that
  answers the first request with an empty body and the second never.
\<close>

definition slow_server :: "nat \<Rightarrow> reply" where
  "slow_server k = Body [] 299999 0"

definition failing_server :: "nat \<Rightarrow> reply" where
  "failing_server k = Rejected"

definition data_server :: "nat \<Rightarrow> reply" where
  "data_server k = (if k = 0 then Body [] 100 0 else Body ''{}'' 100 0)"

definition mute_server :: "nat \<Rightarrow> reply" where
  "mute_server k = (if k = 0 then Body [] 100 0 else Unanswered)"

definition vscode_bar :: UriComponents where
  "vscode_bar = no_components\<lparr>scheme_opt := Some ''vscode'', path_opt := Some ''/bar''\<rparr>"

definition empty_scheme :: UriComponents where
  "empty_scheme = no_components\<lparr>scheme_opt := Some []\<rparr>"

text \<open>
  A stand-in for the JSON functions that knows arrays of plain strings: it writes
  them compactly or one element a line, and reads back the two documents below.
\<close>

fun toy_item :: "json \<Rightarrow> string" where
  "toy_item (JString s) = [CHR 0x22] @ s @ [CHR 0x22]"
| "toy_item v = ''null''"

definition toy_encode :: "json \<Rightarrow> string" where
  "toy_encode v = (case v of JArray xs \<Rightarrow> ''['' @ join '','' (map toy_item xs) @ '']'' | _ \<Rightarrow> ''null'')"

definition toy_encode_2 :: "json \<Rightarrow> string" where
  "toy_encode_2 v =
     (case v of
        JArray [] \<Rightarrow> ''[]''
      | JArray xs \<Rightarrow>
          ''['' @ [CHR 0x0A] @ join ('','' @ [CHR 0x0A]) (map (\<lambda>x. ''  '' @ toy_item x) xs) @ [CHR 0x0A] @ '']''
      | _ \<Rightarrow> ''null'')"

definition example_doc :: string where
  "example_doc = ''['' @ [CHR 0x22] @ ''example.com'' @ [CHR 0x22] @ '']''"

definition toy_decode :: "string \<Rightarrow> json option" where
  "toy_decode src =
     (if src = ''[]'' then Some (JArray [])
      else if src = example_doc then Some (JArray [JString ''example.com''])
      else None)"

text \<open>
  As the fault-tolerant parser does, the stand-in for \<open>parse\<close> never throws: of a
  text it cannot read it returns \<open>undefined\<close>.
\<close>

definition toy_json :: json_functions where
  "toy_json =
     \<lparr>content_toString = (\<lambda>bytes. bytes), Buffer_from = (\<lambda>text. text),
      jsonc_parse = (\<lambda>text. Returns (toy_decode text)), JSON_parse = toy_decode,
      JSON_stringify = toy_encode, JSON_stringify_2 = toy_encode_2\<rparr>"

definition example_product :: TrustedDomainsContentProvider where
  "example_product =
     \<lparr>linkProtectionTrustedDomains = Some [''example.org''], storage = Map.empty, store_calls = []\<rparr>"

section \<open>Credentials: set, get, delete\<close>

lemma stored_cached: "stored parse (p\<lparr>u_credentials := Some cs\<rparr>) = cs"
  by (simp add: stored_def credentials_def)

lemma credentials_snd_cached:
  "u_credentials (snd (credentials parse p)) = Some (stored parse p)"
  by (simp add: stored_def credentials_def Let_def split: option.splits)

lemma credentials_stable:
  "credentials parse (snd (credentials parse p)) = credentials parse p"
  by (simp add: credentials_def Let_def split: option.splits)

lemma stored_save: "stored parse (save parse stringify p) = stored parse p"
  by (simp add: stored_def save_def credentials_def Let_def split: option.splits)

lemma stored_deletePassword:
  "stored parse (snd (deletePassword parse stringify svc acct p))
     = filter (\<lambda>c. \<not> is_for svc acct c) (stored parse p)"
proof -
  obtain cs p1 where c: "credentials parse p = (cs, p1)"
    by (cases "credentials parse p")
  have "stored parse p = cs"
    using c by (simp add: stored_def)
  then show ?thesis
    using c by (simp add: deletePassword_def Let_def stored_save stored_cached is_for_def)
qed

lemma found_deletePassword:
  "fst (deletePassword parse stringify svc acct p)
     = (\<exists>c \<in> set (stored parse p). is_for svc acct c)"
  by (cases "credentials parse p")
     (simp add: deletePassword_def Let_def stored_def list_ex_iff is_for_def)

lemma stored_setPassword:
  "stored parse (setPassword parse stringify svc acct pw p)
     = filter (\<lambda>c. \<not> is_for svc acct c) (stored parse p)
         @ [\<lparr>service = svc, account = acct, password = pw\<rparr>]"
proof -
  obtain f p1 where d: "deletePassword parse stringify svc acct p = (f, p1)"
    by (cases "deletePassword parse stringify svc acct p")
  obtain cs p2 where c: "credentials parse p1 = (cs, p2)"
    by (cases "credentials parse p1")
  have "cs = stored parse p1"
    using c by (simp add: stored_def)
  also have "\<dots> = filter (\<lambda>c. \<not> is_for svc acct c) (stored parse p)"
    using stored_deletePassword [of parse stringify svc acct p] d by simp
  finally show ?thesis
    using d c by (simp add: setPassword_def stored_save stored_cached)
qed

lemma doGetPassword_loop_skip:
  "\<forall>c \<in> set cs. \<not> is_for svc acct c
     \<Longrightarrow> doGetPassword_loop svc (Some acct) (cs @ rest) = doGetPassword_loop svc (Some acct) rest"
  by (induction cs) (auto simp: is_for_def)

lemma getPassword_stored:
  "fst (getPassword parse svc acct p) = doGetPassword_loop svc (Some acct) (stored parse p)"
  by (cases "credentials parse p") (simp add: getPassword_def doGetPassword_def stored_def)

lemma distinct_pairs_filter:
  "distinct (map pair_of cs) \<Longrightarrow> distinct (map pair_of (filter P cs))"
  by (induction cs) auto

text \<open>
  C10. After \<open>setPassword(service, account, password)\<close>, \<open>getPassword(service, account)\<close>
  returns that password and exactly one credential of the pair is stored (the earlier
  ones are removed before the new one is appended), so an array with at most one
  credential per pair stays so; \<open>deletePassword(service, account)\<close> returns true
  exactly when a credential of that pair was stored, removes every credential of the
  pair and leaves the credentials of all other pairs as they were, in their order.
\<close>

theorem credentials_set_get_delete:
  "fst (getPassword parse svc acct (setPassword parse stringify svc acct pw p)) = Some pw
   \<and> length (filter (is_for svc acct) (stored parse (setPassword parse stringify svc acct pw p))) = 1
   \<and> (distinct (map pair_of (stored parse p))
        \<longrightarrow> distinct (map pair_of (stored parse (setPassword parse stringify svc acct pw p))))
   \<and> fst (deletePassword parse stringify svc acct p)
        = (\<exists>c \<in> set (stored parse p). is_for svc acct c)
   \<and> filter (is_for svc acct) (stored parse (snd (deletePassword parse stringify svc acct p))) = []
   \<and> filter (\<lambda>c. \<not> is_for svc acct c) (stored parse (snd (deletePassword parse stringify svc acct p)))
        = filter (\<lambda>c. \<not> is_for svc acct c) (stored parse p)"
proof -
  let ?new = "\<lparr>service = svc, account = acct, password = pw\<rparr>"
  let ?others = "filter (\<lambda>c. \<not> is_for svc acct c) (stored parse p)"
  have set: "stored parse (setPassword parse stringify svc acct pw p) = ?others @ [?new]"
    by (rule stored_setPassword)
  have del: "stored parse (snd (deletePassword parse stringify svc acct p)) = ?others"
    by (rule stored_deletePassword)
  have none: "\<forall>c \<in> set ?others. \<not> is_for svc acct c"
    by simp
  have "doGetPassword_loop svc (Some acct) (?others @ [?new]) = doGetPassword_loop svc (Some acct) [?new]"
    using none by (rule doGetPassword_loop_skip)
  then have get: "fst (getPassword parse svc acct (setPassword parse stringify svc acct pw p)) = Some pw"
    by (simp add: getPassword_stored set)
  have one: "length (filter (is_for svc acct) (?others @ [?new])) = 1"
    by (simp add: is_for_def)
  have inv: "distinct (map pair_of (?others @ [?new]))" if "distinct (map pair_of (stored parse p))"
  proof -
    have "distinct (map pair_of ?others)"
      using that by (rule distinct_pairs_filter)
    moreover have "pair_of ?new \<notin> set (map pair_of ?others)"
      by (auto simp: pair_of_def is_for_def)
    ultimately show ?thesis by simp
  qed
  show ?thesis
    using get one inv
    by (simp add: set del found_deletePassword)
qed

theorem credentials_set_get_delete_witness:
  "distinct (map pair_of (stored (\<lambda>s. None) fresh_provider))
   \<and> fst (getPassword (\<lambda>s. None)  ''github'' ''alice''
        (setPassword (\<lambda>s. None) (\<lambda>cs. ''[]'') ''github'' ''alice'' ''s3cret'' fresh_provider)) = Some ''s3cret''
   \<and> distinct (map pair_of (stored (\<lambda>s. None)
        (setPassword (\<lambda>s. None) (\<lambda>cs. ''[]'') ''github'' ''alice'' ''s3cret'' fresh_provider)))
   \<and> \<not> fst (deletePassword (\<lambda>s. None) (\<lambda>cs. ''[]'') ''github'' ''alice'' fresh_provider)"
proof -
  have h: "distinct (map pair_of (stored (\<lambda>s. None) fresh_provider))"
    by (simp add: stored_def credentials_def fresh_provider_def)
  have e: "stored (\<lambda>s. None) fresh_provider = []"
    by (simp add: stored_def credentials_def fresh_provider_def)
  show ?thesis
    using h e
      credentials_set_get_delete [of "\<lambda>s. None" "''github''" "''alice''" "\<lambda>cs. ''[]''" "''s3cret''" fresh_provider]
    by simp
qed

section \<open>getConfirmMessage: the lines of the message\<close>

declare string_of_nat.simps [simp del]
declare format0.simps [simp del]

lemma digit_value: "d < 10 \<Longrightarrow> of_char (digit_char d) - 48 = d"
  by (simp add: digit_char_def)

lemma nat_of_string_snoc:
  "nat_of_string (ds @ [c]) = 10 * nat_of_string ds + (of_char c - 48)"
  by (simp add: nat_of_string_def)

lemma nat_of_string_of_nat: "nat_of_string (string_of_nat n) = n"
proof (induction n rule: string_of_nat.induct)
  case (1 n)
  show ?case
  proof (cases "n < 10")
    case True
    then show ?thesis
      by (subst string_of_nat.simps) (simp add: nat_of_string_def digit_value)
  next
    case False
    then have "nat_of_string (string_of_nat n)
        = 10 * nat_of_string (string_of_nat (n div 10)) + (of_char (digit_char (n mod 10)) - 48)"
      by (subst string_of_nat.simps) (simp add: nat_of_string_snoc)
    also have "\<dots> = 10 * (n div 10) + n mod 10"
      using False "1.IH" by (simp add: digit_value)
    finally show ?thesis by simp
  qed
qed

lemma format0_moreFiles:
  "format0 ''...{0} additional files not shown'' a = ''...'' @ a @ '' additional files not shown''"
  by (simp add: format0.simps)

lemma localize_moreFile:
  "localize ''moreFile'' ''...1 additional file not shown'' None = ''...1 additional file not shown''"
  by (simp add: localize_def)

lemma localize_moreFiles:
  "localize ''moreFiles'' ''...{0} additional files not shown'' (Some n)
     = ''...'' @ string_of_nat n @ '' additional files not shown''"
  by (simp only: localize_def option.case format0_moreFiles)

lemma string_of_2: "string_of_nat (Suc (Suc 0)) = ''2''"
proof -
  have "string_of_nat 2 = ''2''"
    by code_simp
  then show ?thesis
    by (simp add: numeral_2_eq_2)
qed

text \<open>
  C9. The message is the lines joined by newlines, and the lines are: the start, an
  empty line, the base names of the first ten resources (of all of them when there are
  at most ten), then, only when there are more than ten, one line that tells how many
  are not shown (in the singular when it is one, and otherwise with the decimal
  numeral of the length minus ten, which reads back as that number), and an empty line.
\<close>

theorem getConfirmMessage_lines:
  "getConfirmMessage basename start rs = join [CHR 0x0A] (confirm_lines basename start rs)
   \<and> confirm_lines basename start rs
       = [start, []] @ map basename (take 10 rs)
           @ (if length rs \<le> 10 then []
              else if length rs = 11 then [''...1 additional file not shown'']
              else [''...'' @ string_of_nat (length rs - 10) @ '' additional files not shown''])
           @ [[]]
   \<and> nat_of_string (string_of_nat (length rs - 10)) = length rs - 10"
proof -
  have "confirm_lines basename start rs
       = [start, []] @ map basename (take 10 rs)
           @ (if length rs \<le> 10 then []
              else if length rs = 11 then [''...1 additional file not shown'']
              else [''...'' @ string_of_nat (length rs - 10) @ '' additional files not shown''])
           @ [[]]"
    unfolding confirm_lines_def MAX_CONFIRM_FILES_def Let_def localize_moreFile localize_moreFiles
    by auto
  then show ?thesis
    by (simp add: getConfirmMessage_def nat_of_string_of_nat)
qed

theorem getConfirmMessage_lines_witness:
  "confirm_lines (\<lambda>r. r) ''Delete?''
       [''f1'', ''f2'', ''f3'', ''f4'', ''f5'', ''f6'', ''f7'', ''f8'', ''f9'', ''f10'', ''f11'', ''f12'']
     = [''Delete?'', [], ''f1'', ''f2'', ''f3'', ''f4'', ''f5'', ''f6'', ''f7'', ''f8'', ''f9'', ''f10'',
        ''...2 additional files not shown'', []]
   \<and> confirm_lines (\<lambda>r. r) ''Delete?'' [''a'', ''b''] = [''Delete?'', [], ''a'', ''b'', []]"
  using getConfirmMessage_lines [of "\<lambda>r. r" "''Delete?''"
           "[''f1'', ''f2'', ''f3'', ''f4'', ''f5'', ''f6'', ''f7'', ''f8'', ''f9'', ''f10'', ''f11'', ''f12'']"]
    getConfirmMessage_lines [of "\<lambda>r. r" "''Delete?''" "[''a'', ''b'']"]
  by (simp add: string_of_2)

section \<open>TrustedDomainsContentProvider: what is written and what is read\<close>

lemma readFile_stored:
  "readFile js p =
     Buffer_from js
       (JSON_stringify_2 js (case stored_value js p of Some v \<Rightarrow> v | None \<Rightarrow> product_default p))"
  by (simp add: readFile_def get_def stored_value_def product_default_def Let_def split: option.splits)

lemma writeFile_returns_value:
  "jsonc_parse js (content_toString js content) = Returns (Some v)
     \<Longrightarrow> writeFile js content p = store TRUSTED_DOMAINS_KEY (Some (JSON_stringify js v)) GLOBAL p"
  by (simp add: writeFile_def)

lemma writeFile_throws:
  "jsonc_parse js (content_toString js content) = Throws
     \<Longrightarrow> writeFile js content p
          = store TRUSTED_DOMAINS_KEY (Some (JSON_stringify js (JArray []))) GLOBAL p"
  by (simp add: writeFile_def)

lemma writeFile_returns_undefined:
  "jsonc_parse js (content_toString js content) = Returns None
     \<Longrightarrow> writeFile js content p = store TRUSTED_DOMAINS_KEY None GLOBAL p"
  by (simp add: writeFile_def)

lemma storage_store:
  "storage (store key val scope p) = (storage p)((key, scope) := val)"
  by (cases val) (simp_all add: store_def)

text \<open>
  Where the parser returns a value and \<open>JSON.parse\<close> reads back what
  \<open>JSON.stringify\<close> wrote, a \<open>readFile\<close> after the \<open>writeFile\<close> returns the
  indented serialization of that value; and \<open>readFile\<close> falls back to the list of
  the product when storage holds nothing that parses.
\<close>

lemma readFile_after_writeFile:
  assumes "jsonc_parse js (content_toString js content) = Returns (Some v)"
    and "JSON_stringify js v \<noteq> []"
    and "JSON_parse js (JSON_stringify js v) = Some v"
  shows "readFile js (writeFile js content p) = Buffer_from js (JSON_stringify_2 js v)"
proof -
  have "stored_value js (writeFile js content p) = Some v"
    using assms by (simp add: writeFile_returns_value storage_store stored_value_def)
  then show ?thesis
    by (simp add: readFile_stored)
qed

lemma readFile_fallback:
  "stored_value js p = None \<Longrightarrow> readFile js p = Buffer_from js (JSON_stringify_2 js (product_default p))"
  by (simp add: readFile_stored)

lemma toy_documents:
  "toy_encode (JArray [JString ''example.com'']) = example_doc"
  "toy_encode (JArray []) = ''[]''"
  "example_doc \<noteq> []" "example_doc \<noteq> ''[]''" "''not json'' \<noteq> example_doc"
  by (simp_all add: toy_encode_def example_doc_def)

text \<open>
  C8. The claim has \<open>writeFile\<close> store the empty list when the content does not
  parse. The code starts from the empty array and catches what \<open>parse\<close> throws, but
  the parser does not throw at a malformed text: it returns \<open>undefined\<close>, the
  assignment goes through, and \<open>store\<close> is called with \<open>undefined\<close>. At the
  content \<open>not json\<close>: the one call of \<open>store\<close> carries no string, no string (and
  so no serialized empty list) is under the key afterwards, and the next
  \<open>readFile\<close> returns the list of the product, not the empty list. At a content
  that parses, the serialization is stored and read back.
\<close>

theorem writeFile_malformed_stores_undefined:
  "jsonc_parse toy_json (content_toString toy_json ''not json'') = Returns None
   \<and> store_calls (writeFile toy_json ''not json'' example_product)
       = [(TRUSTED_DOMAINS_KEY, None, GLOBAL)]
   \<and> storage (writeFile toy_json ''not json'' example_product) (TRUSTED_DOMAINS_KEY, GLOBAL) = None
   \<and> readFile toy_json (writeFile toy_json ''not json'' example_product)
       = toy_encode_2 (JArray [JString ''example.org''])
   \<and> toy_encode_2 (JArray [JString ''example.org'']) \<noteq> toy_encode_2 (JArray [])
   \<and> storage (writeFile toy_json example_doc example_product) (TRUSTED_DOMAINS_KEY, GLOBAL)
       = Some example_doc
   \<and> readFile toy_json (writeFile toy_json example_doc example_product)
       = toy_encode_2 (JArray [JString ''example.com''])"
proof -
  have js: "content_toString toy_json = (\<lambda>bytes. bytes)" "Buffer_from toy_json = (\<lambda>text. text)"
      "jsonc_parse toy_json = (\<lambda>text. Returns (toy_decode text))" "JSON_parse toy_json = toy_decode"
      "JSON_stringify toy_json = toy_encode" "JSON_stringify_2 toy_json = toy_encode_2"
    by (simp_all add: toy_json_def)
  have bad: "jsonc_parse toy_json (content_toString toy_json ''not json'') = Returns None"
    by (simp add: js toy_decode_def toy_documents)
  have good: "jsonc_parse toy_json (content_toString toy_json example_doc)
      = Returns (Some (JArray [JString ''example.com'']))"
    by (simp add: js toy_decode_def toy_documents)
  have w: "writeFile toy_json ''not json'' example_product
      = store TRUSTED_DOMAINS_KEY None GLOBAL example_product"
    using bad by (rule writeFile_returns_undefined)
  have calls: "store_calls (writeFile toy_json ''not json'' example_product)
      = [(TRUSTED_DOMAINS_KEY, None, GLOBAL)]"
    unfolding w by (simp add: store_def example_product_def)
  have gone: "storage (writeFile toy_json ''not json'' example_product) (TRUSTED_DOMAINS_KEY, GLOBAL) = None"
    unfolding w by (simp add: storage_store)
  then have "stored_value toy_json (writeFile toy_json ''not json'' example_product) = None"
    by (simp add: stored_value_def)
  moreover have "product_default (writeFile toy_json ''not json'' example_product)
      = JArray [JString ''example.org'']"
    unfolding w by (simp add: product_default_def store_def example_product_def)
  ultimately have r: "readFile toy_json (writeFile toy_json ''not json'' example_product)
      = toy_encode_2 (JArray [JString ''example.org''])"
    by (simp add: readFile_fallback js)
  have differ: "toy_encode_2 (JArray [JString ''example.org'']) \<noteq> toy_encode_2 (JArray [])"
    by (simp add: toy_encode_2_def)
  have kept: "storage (writeFile toy_json example_doc example_product) (TRUSTED_DOMAINS_KEY, GLOBAL)
      = Some example_doc"
    using good by (simp add: writeFile_returns_value storage_store js toy_documents)
  have "readFile toy_json (writeFile toy_json example_doc example_product)
      = Buffer_from toy_json (JSON_stringify_2 toy_json (JArray [JString ''example.com'']))"
    using good by (rule readFile_after_writeFile) (simp_all add: js toy_documents toy_decode_def)
  then have r2: "readFile toy_json (writeFile toy_json example_doc example_product)
      = toy_encode_2 (JArray [JString ''example.com''])"
    by (simp add: js)
  show ?thesis
    using bad calls gone r differ kept r2 by simp
qed

section \<open>create: the redirect URI\<close>

lemmas QUERY_KEYS = REQUEST_ID_def SCHEME_def AUTHORITY_def PATH_def QUERY_def FRAGMENT_def

lemma Map_set_fresh: "k \<notin> fst ` set m \<Longrightarrow> Map_set k v m = m @ [(k, v)]"
  by (induction m) auto

lemma set_if_truthy_fresh:
  "k \<notin> fst ` set m \<Longrightarrow> set_if_truthy k c m = m @ entry k c"
  by (simp add: set_if_truthy_def entry_def Map_set_fresh split: option.splits)

lemma entry_key: "(k', v) \<in> set (entry k c) \<Longrightarrow> k' = k"
  by (auto simp: entry_def split: option.splits if_splits)

text \<open>
  The six keys differ, so every \<open>set\<close> of \<open>create\<close> appends: the map lists the
  request identifier and then the components that are given with a value, in the
  order of the source.
\<close>

lemma create_queryValues_entries:
  "create_queryValues options requestId = (REQUEST_ID, requestId) # given_entries options"
proof (cases options)
  case None
  then show ?thesis
    by (simp add: create_queryValues_def given_entries_def no_components_def set_if_truthy_def)
next
  case (Some c)
  let ?m0 = "[(REQUEST_ID, requestId)]"
  let ?m1 = "?m0 @ entry SCHEME (scheme_opt c)"
  let ?m2 = "?m1 @ entry AUTHORITY (authority_opt c)"
  let ?m3 = "?m2 @ entry PATH (path_opt c)"
  let ?m4 = "?m3 @ entry QUERY (query_opt c)"
  let ?m5 = "?m4 @ entry FRAGMENT (fragment_opt c)"
  have 1: "set_if_truthy SCHEME (scheme_opt c) ?m0 = ?m1"
    by (rule set_if_truthy_fresh) (simp add: QUERY_KEYS)
  have 2: "set_if_truthy AUTHORITY (authority_opt c) ?m1 = ?m2"
    by (rule set_if_truthy_fresh) (auto simp: QUERY_KEYS dest!: entry_key)
  have 3: "set_if_truthy PATH (path_opt c) ?m2 = ?m3"
    by (rule set_if_truthy_fresh) (auto simp: QUERY_KEYS dest!: entry_key)
  have 4: "set_if_truthy QUERY (query_opt c) ?m3 = ?m4"
    by (rule set_if_truthy_fresh) (auto simp: QUERY_KEYS dest!: entry_key)
  have 5: "set_if_truthy FRAGMENT (fragment_opt c) ?m4 = ?m5"
    by (rule set_if_truthy_fresh) (auto simp: QUERY_KEYS dest!: entry_key)
  have "create_queryValues options requestId = ?m5"
    unfolding create_queryValues_def Let_def Some option.case Map_set.simps 1 2 3 4 5 ..
  then show ?thesis
    by (simp add: given_entries_def Some)
qed

lemma fold_doCreateUri_each:
  "fold doCreateUri_each kvs (Some q, Suc n)
     = (Some (q @ concat (map query_param kvs)), Suc n + length kvs)"
  by (induction kvs arbitrary: q n) (auto simp: doCreateUri_each_def query_param_def)

lemma doCreateUri_query:
  "doCreateUri location pth ((k, v) # kvs)
     = location\<lparr>path := pth, query := k @ ''='' @ encodeURIComponent v @ concat (map query_param kvs)\<rparr>"
  by (simp add: doCreateUri_def URI_with_def fold_doCreateUri_each doCreateUri_each_def)

lemma create_depends_on_entries:
  "given_entries options = given_entries options'
     \<Longrightarrow> create location options requestId now s = create location options' requestId now s"
  by (simp add: create_def create_queryValues_entries)

lemma encoded_examples:
  "encodeURIComponent ''/bar'' = ''%2Fbar''"
  "encodeURIComponent ''vscode'' = ''vscode''"
  "encodeURIComponent ''r-1'' = ''r-1''"
  "encodeURIComponent ''foo'' = ''foo''"
  "encodeURIComponent [] = []"
  by code_simp+

text \<open>
  C5, as the specification states it: a query parameter for exactly the components
  that are supplied. A scheme supplied as the empty string gets none.
\<close>

theorem create_empty_scheme_no_param:
  "scheme_opt empty_scheme = Some []
   \<and> query (fst (create here (Some empty_scheme) ''r-1'' 0 idle)) = ''vscode-requestId=r-1''
   \<and> query_of_supplied (Some empty_scheme) ''r-1'' = ''vscode-requestId=r-1&vscode-scheme=''"
  by (simp add: create_def create_queryValues_entries doCreateUri_query given_entries_def entry_def
        query_of_supplied_def supplied_entries_def entry_supplied_def query_param_def
        empty_scheme_def no_components_def QUERY_KEYS encoded_examples)

text \<open>
  C5, amended. The URI that \<open>create\<close> returns has the path \<open>/callback\<close>, the scheme,
  authority and fragment of the current location, and as its query the request
  identifier under \<open>vscode-requestId\<close> followed by one parameter for each of scheme,
  authority, path, query and fragment that is given with a value that is not empty:
  its key with the prefix \<open>vscode-\<close>, and its value URL-encoded.
\<close>

theorem create_uri:
  "path (fst (create location options requestId now s)) = ''/callback''
   \<and> scheme (fst (create location options requestId now s)) = scheme location
   \<and> authority (fst (create location options requestId now s)) = authority location
   \<and> fragment (fst (create location options requestId now s)) = fragment location
   \<and> query (fst (create location options requestId now s)) = expected_query options requestId"
  by (simp add: create_def Let_def create_queryValues_entries doCreateUri_query expected_query_def)

theorem create_uri_witness:
  "fst (create here (Some vscode_bar) ''r-1'' 0 idle)
     = \<lparr>scheme = ''https'', authority = ''example.com'', path = ''/callback'',
        query = ''vscode-requestId=r-1&vscode-scheme=vscode&vscode-path=%2Fbar'', fragment = []\<rparr>"
proof -
  have "expected_query (Some vscode_bar) ''r-1''
      = ''vscode-requestId=r-1&vscode-scheme=vscode&vscode-path=%2Fbar''"
    by (simp add: expected_query_def given_entries_def entry_def vscode_bar_def no_components_def
          query_param_def QUERY_KEYS encoded_examples)
  then show ?thesis
    using create_uri [of here "Some vscode_bar" "''r-1''" 0 idle]
    by (cases "fst (create here (Some vscode_bar) ''r-1'' 0 idle)") (simp add: here_def)
qed

text \<open>
  C7. The map that \<open>create\<close> builds holds the request identifier and an entry for
  each component with a value that is not empty, and for no other: a component given
  as the empty string leaves no entry, as an absent one does, and \<open>create\<close> returns
  the same URI (and leaves the same state) for the one as for the other.
\<close>

theorem create_omits_empty:
  "create_queryValues (Some c) requestId
     = (REQUEST_ID, requestId)
         # entry SCHEME (scheme_opt c) @ entry AUTHORITY (authority_opt c) @ entry PATH (path_opt c)
         @ entry QUERY (query_opt c) @ entry FRAGMENT (fragment_opt c)
   \<and> entry key (Some []) = [] \<and> entry key None = []
   \<and> (v \<noteq> [] \<longrightarrow> entry key (Some v) = [(key, v)])
   \<and> create location (Some (c\<lparr>scheme_opt := Some []\<rparr>)) requestId now s
       = create location (Some (c\<lparr>scheme_opt := None\<rparr>)) requestId now s
   \<and> create location (Some (c\<lparr>authority_opt := Some []\<rparr>)) requestId now s
       = create location (Some (c\<lparr>authority_opt := None\<rparr>)) requestId now s
   \<and> create location (Some (c\<lparr>path_opt := Some []\<rparr>)) requestId now s
       = create location (Some (c\<lparr>path_opt := None\<rparr>)) requestId now s
   \<and> create location (Some (c\<lparr>query_opt := Some []\<rparr>)) requestId now s
       = create location (Some (c\<lparr>query_opt := None\<rparr>)) requestId now s
   \<and> create location (Some (c\<lparr>fragment_opt := Some []\<rparr>)) requestId now s
       = create location (Some (c\<lparr>fragment_opt := None\<rparr>)) requestId now s"
proof -
  have "create_queryValues (Some c) requestId = (REQUEST_ID, requestId) # given_entries (Some c)"
    by (rule create_queryValues_entries)
  moreover have "\<And>options options'. given_entries options = given_entries options'
      \<Longrightarrow> create location options requestId now s = create location options' requestId now s"
    by (rule create_depends_on_entries)
  ultimately show ?thesis
    by (simp add: given_entries_def entry_def)
qed

theorem create_omits_empty_witness:
  "create_queryValues (Some (no_components\<lparr>authority_opt := Some ''foo'', path_opt := Some []\<rparr>)) ''r-1''
     = [(''vscode-requestId'', ''r-1''), (''vscode-authority'', ''foo'')]
   \<and> ''foo'' \<noteq> [] \<and> entry AUTHORITY (Some ''foo'') = [(AUTHORITY, ''foo'')]
   \<and> create here (Some (no_components\<lparr>path_opt := Some []\<rparr>)) ''r-1'' 0 idle
       = create here (Some no_components) ''r-1'' 0 idle"
proof -
  have "no_components\<lparr>path_opt := None\<rparr> = no_components"
    by (simp add: no_components_def)
  then show ?thesis
    using create_omits_empty [of "no_components\<lparr>authority_opt := Some ''foo'', path_opt := Some []\<rparr>"
        "''r-1''" AUTHORITY "''foo''" here 0 idle]
      create_omits_empty [of no_components "''r-1''" AUTHORITY "''foo''" here 0 idle]
    by (simp add: entry_def no_components_def QUERY_KEYS)
qed

section \<open>The event loop: a ticket that has ended, and the other tickets\<close>

lemmas callback_defs = periodicFetchCallback_def periodicFetchCallback_resume_def
  periodicFetchCallback_reject_def create_def

lemma run_Cons: "run parse location (e # evs) s = run parse location evs (step parse location e s)"
  by (simp add: run_def)

lemma step_other_ticket:
  "ticket_of e \<noteq> b \<Longrightarrow> ticket_view b (step parse location e s) = ticket_view b s"
  by (cases e)
     (auto simp: ticket_view_def requests_of_def callback_defs Let_def
           split: option.splits ticket.splits)

lemma step_ended_ticket:
  "tickets s requestId = None \<Longrightarrow> ticket_of e = requestId \<Longrightarrow> \<not> is_create e
     \<Longrightarrow> step parse location e s = s"
  by (cases e) auto

lemma step_keeps_ended:
  assumes "tickets s requestId = None" and "is_create e \<longrightarrow> ticket_of e \<noteq> requestId"
  shows "ticket_view requestId (step parse location e s) = ticket_view requestId s"
proof (cases "ticket_of e = requestId")
  case True
  then show ?thesis
    using assms by (simp add: step_ended_ticket)
next
  case False
  then show ?thesis
    by (rule step_other_ticket)
qed

lemma run_keeps_ended:
  "tickets s requestId = None
     \<Longrightarrow> \<forall>e \<in> set evs. is_create e \<longrightarrow> ticket_of e \<noteq> requestId
     \<Longrightarrow> ticket_view requestId (run parse location evs s) = ticket_view requestId s"
proof (induction evs arbitrary: s)
  case Nil
  then show ?case by (simp add: run_def)
next
  case (Cons e evs)
  have v: "ticket_view requestId (step parse location e s) = ticket_view requestId s"
    using Cons.prems by (intro step_keeps_ended) auto
  then have "tickets (step parse location e s) requestId = None"
    using Cons.prems(1) by (simp add: ticket_view_def)
  then have "ticket_view requestId (run parse location evs (step parse location e s))
      = ticket_view requestId (step parse location e s)"
    using Cons.prems(2) by (intro Cons.IH) auto
  then show ?case
    using v by (simp add: run_Cons)
qed

text \<open>
  What a step does to a ticket depends on the event and on that ticket's own state
  and requests, and on nothing else in the provider.
\<close>

lemma step_view_cong:
  assumes "ticket_view b s = ticket_view b s'"
  shows "ticket_view b (step parse location e s) = ticket_view b (step parse location e s')"
proof (cases "ticket_of e = b")
  case False
  then show ?thesis
    using assms by (simp add: step_other_ticket)
next
  case True
  then show ?thesis
    using assms
    by (cases e)
       (auto simp: ticket_view_def requests_of_def callback_defs Let_def
             split: option.splits ticket.splits)
qed

lemma run_view_cong:
  "ticket_view b s = ticket_view b s'
     \<Longrightarrow> ticket_view b (run parse location evs s) = ticket_view b (run parse location evs s')"
proof (induction evs arbitrary: s s')
  case Nil
  then show ?case by (simp add: run_def)
next
  case (Cons e evs)
  have "ticket_view b (step parse location e s) = ticket_view b (step parse location e s')"
    using Cons.prems by (rule step_view_cong)
  then have "ticket_view b (run parse location evs (step parse location e s))
      = ticket_view b (run parse location evs (step parse location e s'))"
    by (rule Cons.IH)
  then show ?case by (simp add: run_Cons)
qed

lemma ended_forever:
  assumes "tickets s' requestId = None"
    and "\<forall>e \<in> set evs. is_create e \<longrightarrow> ticket_of e \<noteq> requestId"
  shows "tickets (run parse location evs s') requestId = None
    \<and> requests_of requestId (run parse location evs s') = requests_of requestId s'"
proof -
  have "ticket_view requestId (run parse location evs s') = ticket_view requestId s'"
    using assms by (rule run_keeps_ended)
  then show ?thesis
    using assms(1) by (simp add: ticket_view_def)
qed

lemma waiting_ticket: "tickets waiting ''r-1'' = Some (AwaitingResponse 0)"
  by (simp add: waiting_def create_def periodicFetchCallback_def)

lemma waiting_log: "fired waiting = [] \<and> console_errors waiting = 0"
  by (simp add: waiting_def create_def periodicFetchCallback_def idle_def)

text \<open>
  C1. A response with a body that is not empty and parses, for a ticket that waits
  for it: the payload is fired on \<open>onCallback\<close>, once, nothing is logged and no
  request goes out; the ticket is gone, and whatever happens afterwards (short of
  \<open>generateUuid\<close> handing out the same identifier again) no request is issued for it
  any more: a later response, rejection or timer for it changes nothing at all.
\<close>

theorem delivery_is_terminal:
  assumes "tickets s requestId = Some (AwaitingResponse startTime)"
    and "content \<noteq> []"
    and "parse content = Some payload"
    and "\<forall>e \<in> set evs. is_create e \<longrightarrow> ticket_of e \<noteq> requestId"
  shows "fired (step parse location (Response requestId content now) s) = fired s @ [payload]
    \<and> console_errors (step parse location (Response requestId content now) s) = console_errors s
    \<and> requests (step parse location (Response requestId content now) s) = requests s
    \<and> tickets (step parse location (Response requestId content now) s) requestId = None
    \<and> tickets (run parse location evs (step parse location (Response requestId content now) s)) requestId = None
    \<and> requests_of requestId (run parse location evs (step parse location (Response requestId content now) s))
        = requests_of requestId s
    \<and> (ticket_of e = requestId \<and> \<not> is_create e
        \<longrightarrow> step parse location e (step parse location (Response requestId content now) s)
            = step parse location (Response requestId content now) s)"
proof -
  define s' where "s' = step parse location (Response requestId content now) s"
  have s': "s' = s\<lparr>fired := fired s @ [payload], tickets := (tickets s)(requestId := None)\<rparr>"
    using assms(1-3) by (simp add: s'_def periodicFetchCallback_resume_def)
  have ended: "tickets s' requestId = None"
    by (simp add: s')
  have "requests_of requestId s' = requests_of requestId s"
    by (simp add: s' requests_of_def)
  then have later: "tickets (run parse location evs s') requestId = None
      \<and> requests_of requestId (run parse location evs s') = requests_of requestId s"
    using ended_forever [OF ended assms(4)] by simp
  have quiet: "step parse location e s' = s'" if "ticket_of e = requestId" "\<not> is_create e"
    using ended that by (rule step_ended_ticket)
  have "fired s' = fired s @ [payload] \<and> console_errors s' = console_errors s
      \<and> requests s' = requests s"
    by (simp add: s')
  then show ?thesis
    using ended later quiet unfolding s'_def by blast
qed

theorem delivery_is_terminal_witness:
  "fired (step toy_parse here (Response ''r-1'' ''{}'' 700) waiting) = [''{}'']
   \<and> tickets (step toy_parse here (Response ''r-1'' ''{}'' 700) waiting) ''r-1'' = None
   \<and> requests_of ''r-1''
        (run toy_parse here [Timer ''r-1'' 1200, Response ''r-1'' ''{}'' 1300, Create None ''r-2'' 1400]
           (step toy_parse here (Response ''r-1'' ''{}'' 700) waiting))
       = requests_of ''r-1'' waiting"
proof -
  have 2: "''{}'' \<noteq> []" by simp
  have 3: "toy_parse ''{}'' = Some ''{}''" by (simp add: toy_parse_def)
  have 4: "\<forall>e \<in> set [Timer ''r-1'' 1200, Response ''r-1'' ''{}'' 1300, Create None ''r-2'' 1400].
      is_create e \<longrightarrow> ticket_of e \<noteq> ''r-1''"
    by simp
  show ?thesis
    using delivery_is_terminal [where parse = toy_parse and content = "''{}''" and s = waiting
        and location = here and now = 700, OF waiting_ticket 2 3 4]
      waiting_log
    by simp
qed

text \<open>
  C3. A response with a body that is not empty and does not parse, for a ticket that
  waits for it: the error is caught and written to the console, no rejection is left
  unhandled, nothing is fired and no request goes out; the ticket is gone, and no
  request is issued for it any more.
\<close>

theorem malformed_is_terminal:
  assumes "tickets s requestId = Some (AwaitingResponse startTime)"
    and "content \<noteq> []"
    and "parse content = None"
    and "\<forall>e \<in> set evs. is_create e \<longrightarrow> ticket_of e \<noteq> requestId"
  shows "fired (step parse location (Response requestId content now) s) = fired s
    \<and> console_errors (step parse location (Response requestId content now) s) = console_errors s + 1
    \<and> unhandled_rejections (step parse location (Response requestId content now) s)
        = unhandled_rejections s
    \<and> requests (step parse location (Response requestId content now) s) = requests s
    \<and> tickets (step parse location (Response requestId content now) s) requestId = None
    \<and> tickets (run parse location evs (step parse location (Response requestId content now) s)) requestId = None
    \<and> requests_of requestId (run parse location evs (step parse location (Response requestId content now) s))
        = requests_of requestId s
    \<and> (ticket_of e = requestId \<and> \<not> is_create e
        \<longrightarrow> step parse location e (step parse location (Response requestId content now) s)
            = step parse location (Response requestId content now) s)"
proof -
  define s' where "s' = step parse location (Response requestId content now) s"
  have s': "s' = s\<lparr>console_errors := console_errors s + 1, tickets := (tickets s)(requestId := None)\<rparr>"
    using assms(1-3) by (simp add: s'_def periodicFetchCallback_resume_def)
  have ended: "tickets s' requestId = None"
    by (simp add: s')
  have "requests_of requestId s' = requests_of requestId s"
    by (simp add: s' requests_of_def)
  then have later: "tickets (run parse location evs s') requestId = None
      \<and> requests_of requestId (run parse location evs s') = requests_of requestId s"
    using ended_forever [OF ended assms(4)] by simp
  have quiet: "step parse location e s' = s'" if "ticket_of e = requestId" "\<not> is_create e"
    using ended that by (rule step_ended_ticket)
  have "fired s' = fired s \<and> console_errors s' = console_errors s + 1
      \<and> unhandled_rejections s' = unhandled_rejections s \<and> requests s' = requests s"
    by (simp add: s')
  then show ?thesis
    using ended later quiet unfolding s'_def by blast
qed

theorem malformed_is_terminal_witness:
  "fired (step toy_parse here (Response ''r-1'' ''<html>'' 700) waiting) = []
   \<and> console_errors (step toy_parse here (Response ''r-1'' ''<html>'' 700) waiting) = 1
   \<and> tickets (step toy_parse here (Response ''r-1'' ''<html>'' 700) waiting) ''r-1'' = None
   \<and> requests_of ''r-1''
        (run toy_parse here [Timer ''r-1'' 1200, Response ''r-1'' ''{}'' 1300]
           (step toy_parse here (Response ''r-1'' ''<html>'' 700) waiting))
       = requests_of ''r-1'' waiting"
proof -
  have 2: "''<html>'' \<noteq> []" by simp
  have 3: "toy_parse ''<html>'' = None" by (simp add: toy_parse_def)
  have 4: "\<forall>e \<in> set [Timer ''r-1'' 1200, Response ''r-1'' ''{}'' 1300].
      is_create e \<longrightarrow> ticket_of e \<noteq> ''r-1''"
    by simp
  show ?thesis
    using malformed_is_terminal [where parse = toy_parse and content = "''<html>''" and s = waiting
        and location = here and now = 700, OF waiting_ticket 2 3 4]
      waiting_log
    by simp
qed

text \<open>
  C6. A response for the ticket \<open>a\<close>, whatever its body, leaves what is suspended for
  another ticket \<open>b\<close> (its \<open>startTime\<close>, and the time its timer is due) and the
  requests issued for \<open>b\<close> as they are; and under every later sequence of events
  \<open>b\<close> goes through the same states and issues the same requests at the same times
  as it does when the response for \<open>a\<close> never comes.
\<close>

theorem delivery_leaves_other_tickets:
  assumes "a \<noteq> b"
  shows "tickets (step parse location (Response a content now) s) b = tickets s b
    \<and> requests_of b (step parse location (Response a content now) s) = requests_of b s
    \<and> ticket_view b (run parse location evs (step parse location (Response a content now) s))
        = ticket_view b (run parse location evs s)"
proof -
  have v: "ticket_view b (step parse location (Response a content now) s) = ticket_view b s"
    using assms by (intro step_other_ticket) simp
  then have "ticket_view b (run parse location evs (step parse location (Response a content now) s))
      = ticket_view b (run parse location evs s)"
    by (rule run_view_cong)
  then show ?thesis
    using v by (simp add: ticket_view_def)
qed

theorem delivery_leaves_other_tickets_witness:
  "tickets (step toy_parse here (Response ''r-1'' ''{}'' 700) two_waiting) ''r-2'' = Some (AwaitingResponse 5)
   \<and> tickets (step toy_parse here (Response ''r-1'' ''{}'' 700) two_waiting) ''r-1'' = None
   \<and> ticket_view ''r-2''
        (run toy_parse here [Response ''r-2'' [] 800, Timer ''r-2'' 1300]
           (step toy_parse here (Response ''r-1'' ''{}'' 700) two_waiting))
       = ticket_view ''r-2'' (run toy_parse here [Response ''r-2'' [] 800, Timer ''r-2'' 1300] two_waiting)
   \<and> tickets (run toy_parse here [Response ''r-2'' [] 800, Timer ''r-2'' 1300] two_waiting) ''r-2''
       = Some (AwaitingResponse 5)"
proof -
  have 1: "''r-1'' \<noteq> ''r-2''" by simp
  have t: "tickets two_waiting = [''r-1'' \<mapsto> AwaitingResponse 0, ''r-2'' \<mapsto> AwaitingResponse 5]"
    by (simp add: two_waiting_def create_def periodicFetchCallback_def idle_def)
  have a: "tickets (step toy_parse here (Response ''r-1'' ''{}'' 700) two_waiting) ''r-1'' = None"
    by (simp add: t periodicFetchCallback_resume_def toy_parse_def)
  have b: "tickets (run toy_parse here [Response ''r-2'' [] 800, Timer ''r-2'' 1300] two_waiting) ''r-2''
       = Some (AwaitingResponse 5)"
    by (simp add: run_def t callback_defs FETCH_TIMEOUT_def FETCH_INTERVAL_def)
  show ?thesis
    using delivery_leaves_other_tickets [OF 1, of toy_parse here "''{}''" 700 two_waiting
        "[Response ''r-2'' [] 800, Timer ''r-2'' 1300]"] a b
    by (simp add: t)
qed

section \<open>One poll sequence\<close>

text \<open>
  The equation of \<open>poll\<close> is taken out of the simplifier and replaced by four
  conditional ones: the request is never answered, it is rejected, the reply makes
  the sequence go on, or the reply ends it.
\<close>

declare poll.simps [simp del]

lemma requests_issue:
  "requests (periodicFetchCallback location requestId startTime t s)
     = requests s @ [fetch location requestId t]"
  by (simp add: periodicFetchCallback_def fetch_def)

lemma requests_resume:
  "requests (periodicFetchCallback_resume parse requestId startTime content now s) = requests s"
  by (simp add: periodicFetchCallback_resume_def split: option.splits)

lemma requests_reject:
  "requests (periodicFetchCallback_reject requestId s) = requests s"
  by (simp add: periodicFetchCallback_reject_def)

lemma ticket_resume:
  "tickets (periodicFetchCallback_resume parse requestId startTime content now s) requestId
     = (if content = [] \<and> now - startTime < FETCH_TIMEOUT
        then Some (AwaitingTimer startTime (now + FETCH_INTERVAL)) else None)"
  by (simp add: periodicFetchCallback_resume_def split: option.splits)

lemma poll_unanswered:
  "env k = Unanswered \<Longrightarrow>
   poll parse location env k requestId startTime t s
     = (None, periodicFetchCallback location requestId startTime t s)"
  by (subst poll.simps) simp

lemma poll_rejected:
  "env k = Rejected \<Longrightarrow>
   poll parse location env k requestId startTime t s
     = (Some ByRejection,
        periodicFetchCallback_reject requestId (periodicFetchCallback location requestId startTime t s))"
  by (subst poll.simps) simp

lemma poll_retry:
  "env k = Body content latency lag \<Longrightarrow> retries startTime (env k) t \<Longrightarrow>
   poll parse location env k requestId startTime t s
     = poll parse location env (Suc k) requestId startTime (t + int latency + FETCH_INTERVAL + int lag)
         (periodicFetchCallback_resume parse requestId startTime content (t + int latency)
            (periodicFetchCallback location requestId startTime t s))"
  by (subst poll.simps) (simp add: ticket_resume)

lemma poll_stop:
  "env k = Body content latency lag \<Longrightarrow> \<not> retries startTime (env k) t \<Longrightarrow>
   poll parse location env k requestId startTime t s
     = (Some (if content \<noteq> [] then ByData else ByTimeout),
        periodicFetchCallback_resume parse requestId startTime content (t + int latency)
          (periodicFetchCallback location requestId startTime t s))"
  by (subst poll.simps) (auto simp add: ticket_resume)

text \<open>
  Induction along a poll sequence: the request at hand is never answered, or the
  reply to it ends the sequence, or makes it go on with the next request, after the
  latency, the interval and the lag.
\<close>

lemma poll_induct [case_names Unanswered Rejected Stop Retry]:
  assumes "\<And>k t s. env k = Unanswered \<Longrightarrow> P k t s"
    and "\<And>k t s. env k = Rejected \<Longrightarrow> P k t s"
    and "\<And>k t s content latency lag. env k = Body content latency lag \<Longrightarrow> \<not> retries startTime (env k) t \<Longrightarrow> P k t s"
    and "\<And>k t s content latency lag. env k = Body content latency lag \<Longrightarrow> retries startTime (env k) t
          \<Longrightarrow> P (Suc k) (t + int latency + FETCH_INTERVAL + int lag)
                (periodicFetchCallback_resume parse requestId startTime content (t + int latency)
                  (periodicFetchCallback location requestId startTime t s))
          \<Longrightarrow> P k t s"
  shows "P k t (s :: 'p PollingURLCallbackProvider)"
proof -
  have "\<forall>k t s. nat (startTime + FETCH_TIMEOUT - t) = n \<longrightarrow> P k t s" for n
  proof (induction n rule: less_induct)
    case (less n)
    show ?case
    proof (intro allI impI)
      fix k t and s :: "'p PollingURLCallbackProvider"
      assume n: "nat (startTime + FETCH_TIMEOUT - t) = n"
      show "P k t s"
      proof (cases "env k")
        case Unanswered
        then show ?thesis by (rule assms(1))
      next
        case Rejected
        then show ?thesis by (rule assms(2))
      next
        case (Body content latency lag)
        show ?thesis
        proof (cases "retries startTime (env k) t")
          case False
          with Body show ?thesis by (rule assms(3))
        next
          case True
          then have "nat (startTime + FETCH_TIMEOUT - (t + int latency + FETCH_INTERVAL + int lag)) < n"
            using Body n by (auto simp add: FETCH_INTERVAL_def)
          then have "P (Suc k) (t + int latency + FETCH_INTERVAL + int lag)
                (periodicFetchCallback_resume parse requestId startTime content (t + int latency)
                  (periodicFetchCallback location requestId startTime t s))"
            using less.IH by blast
          with Body True show ?thesis by (rule assms(4))
        qed
      qed
    qed
  qed
  then show ?thesis by blast
qed


lemma requests_poll_ex:
  "\<exists>ts. requests (snd (poll parse location env k requestId startTime t s))
          = requests s @ map (fetch location requestId) (t # ts)"
proof (induction k t s rule: poll_induct [where env = env and startTime = startTime
         and parse = parse and requestId = requestId and location = location])
  case (Unanswered k t s)
  then show ?case
    by (simp add: poll_unanswered requests_issue)
next
  case (Rejected k t s)
  then show ?case
    by (simp add: poll_rejected requests_reject requests_issue)
next
  case (Stop k t s content latency lag)
  then show ?case
    by (simp add: poll_stop requests_resume requests_issue)
next
  case (Retry k t s content latency lag)
  then obtain ts where "requests (snd (poll parse location env k requestId startTime t s))
      = requests s @ map (fetch location requestId)
          (t # (t + int latency + FETCH_INTERVAL + int lag) # ts)"
    by (auto simp add: poll_retry requests_resume requests_issue)
  then show ?case by blast
qed

lemma poll_times_end:
  "\<not> retries startTime (env k) t \<Longrightarrow> poll_times parse location env k requestId startTime t s = [t]"
  by (cases "env k")
     (simp_all add: poll_times_def poll_stop poll_rejected poll_unanswered requests_resume
        requests_reject requests_issue fetch_def)

lemma poll_times_retry:
  assumes "env k = Body content latency lag" and "retries startTime (env k) t"
  shows "poll_times parse location env k requestId startTime t s
    = t # poll_times parse location env (Suc k) requestId startTime (t + int latency + FETCH_INTERVAL + int lag)
            (periodicFetchCallback_resume parse requestId startTime content (t + int latency)
               (periodicFetchCallback location requestId startTime t s))"
proof -
  let ?s2 = "periodicFetchCallback_resume parse requestId startTime content (t + int latency)
               (periodicFetchCallback location requestId startTime t s)"
  let ?t' = "t + int latency + FETCH_INTERVAL + int lag"
  obtain ts where ts: "requests (snd (poll parse location env (Suc k) requestId startTime ?t' ?s2))
      = requests ?s2 @ map (fetch location requestId) (?t' # ts)"
    using requests_poll_ex by blast
  have s2: "requests ?s2 = requests s @ [fetch location requestId t]"
    by (simp add: requests_resume requests_issue)
  have "poll parse location env k requestId startTime t s
      = poll parse location env (Suc k) requestId startTime ?t' ?s2"
    using assms by (rule poll_retry)
  then show ?thesis
    using ts by (simp add: poll_times_def s2 fetch_def)
qed

lemma poll_times_hd:
  "\<exists>ts. poll_times parse location env k requestId startTime t s = t # ts"
proof (cases "retries startTime (env k) t")
  case False
  then show ?thesis by (simp add: poll_times_end)
next
  case True
  then obtain content latency lag where "env k = Body content latency lag"
    by (cases "env k") auto
  then show ?thesis
    using True by (simp add: poll_times_retry)
qed

lemma requests_poll:
  "requests (snd (poll parse location env k requestId startTime t s))
     = requests s @ map (fetch location requestId) (poll_times parse location env k requestId startTime t s)"
proof -
  obtain ts where "requests (snd (poll parse location env k requestId startTime t s))
          = requests s @ map (fetch location requestId) (t # ts)"
    using requests_poll_ex by blast
  then show ?thesis
    by (simp add: poll_times_def fetch_def comp_def)
qed

lemma poll_spaced: "spaced (poll_times parse location env k requestId startTime t s)"
proof (induction k t s rule: poll_induct [where env = env and startTime = startTime
         and parse = parse and requestId = requestId and location = location])
  case (Unanswered k t s)
  then show ?case by (simp add: poll_times_end)
next
  case (Rejected k t s)
  then show ?case by (simp add: poll_times_end)
next
  case (Stop k t s content latency lag)
  then show ?case by (simp add: poll_times_end)
next
  case (Retry k t s content latency lag)
  let ?s2 = "periodicFetchCallback_resume parse requestId startTime content (t + int latency)
               (periodicFetchCallback location requestId startTime t s)"
  let ?t' = "t + int latency + FETCH_INTERVAL + int lag"
  obtain ts where ts: "poll_times parse location env (Suc k) requestId startTime ?t' ?s2 = ?t' # ts"
    using poll_times_hd by blast
  have "poll_times parse location env k requestId startTime t s = t # ?t' # ts"
    using Retry(1,2) ts by (simp add: poll_times_retry)
  then show ?case
    using Retry(3) ts by simp
qed

lemma poll_deadline:
  "list_all (\<lambda>t'. t' - startTime < FETCH_TIMEOUT)
     (butlast (poll_times parse location env k requestId startTime t s))"
proof (induction k t s rule: poll_induct [where env = env and startTime = startTime
         and parse = parse and requestId = requestId and location = location])
  case (Unanswered k t s)
  then show ?case by (simp add: poll_times_end)
next
  case (Rejected k t s)
  then show ?case by (simp add: poll_times_end)
next
  case (Stop k t s content latency lag)
  then show ?case by (simp add: poll_times_end)
next
  case (Retry k t s content latency lag)
  let ?s2 = "periodicFetchCallback_resume parse requestId startTime content (t + int latency)
               (periodicFetchCallback location requestId startTime t s)"
  let ?t' = "t + int latency + FETCH_INTERVAL + int lag"
  obtain ts where ts: "poll_times parse location env (Suc k) requestId startTime ?t' ?s2 = ?t' # ts"
    using poll_times_hd by blast
  have "poll_times parse location env k requestId startTime t s = t # ?t' # ts"
    using Retry(1,2) ts by (simp add: poll_times_retry)
  moreover have "t - startTime < FETCH_TIMEOUT"
    using Retry(1,2) by simp
  ultimately show ?case
    using Retry(3) ts by simp
qed

text \<open>
  What is left suspended: nothing when the sequence has ended, the pending request
  when it has not.
\<close>

lemma poll_ticket:
  "tickets (snd (poll parse location env k requestId startTime t s)) requestId
     = (if fst (poll parse location env k requestId startTime t s) = None
        then Some (AwaitingResponse startTime) else None)"
proof (induction k t s rule: poll_induct [where env = env and startTime = startTime
         and parse = parse and requestId = requestId and location = location])
  case (Unanswered k t s)
  then show ?case by (simp add: poll_unanswered periodicFetchCallback_def)
next
  case (Rejected k t s)
  then show ?case by (simp add: poll_rejected periodicFetchCallback_reject_def)
next
  case (Stop k t s content latency lag)
  then show ?case by (auto simp add: poll_stop ticket_resume)
next
  case (Retry k t s content latency lag)
  then show ?case by (simp add: poll_retry)
qed

lemma poll_silent:
  assumes "\<forall>j. \<not> has_data (env j)"
  shows "fired (snd (poll parse location env k requestId startTime t s)) = fired s
    \<and> console_errors (snd (poll parse location env k requestId startTime t s)) = console_errors s
    \<and> fst (poll parse location env k requestId startTime t s) \<noteq> Some ByData"
proof (induction k t s rule: poll_induct [where env = env and startTime = startTime
         and parse = parse and requestId = requestId and location = location])
  case (Unanswered k t s)
  then show ?case
    by (simp add: poll_unanswered periodicFetchCallback_def)
next
  case (Rejected k t s)
  then show ?case
    by (simp add: poll_rejected periodicFetchCallback_reject_def periodicFetchCallback_def)
next
  case (Stop k t s content latency lag)
  moreover have "\<not> has_data (env k)" using assms by blast
  ultimately show ?case
    by (simp add: poll_stop periodicFetchCallback_resume_def periodicFetchCallback_def)
next
  case (Retry k t s content latency lag)
  moreover have "\<not> has_data (env k)" using assms by blast
  ultimately show ?case
    by (simp add: poll_retry periodicFetchCallback_resume_def periodicFetchCallback_def)
qed

text \<open>A rejection is left unhandled when the sequence ends by one, and only then.\<close>

lemma poll_unhandled:
  "unhandled_rejections (snd (poll parse location env k requestId startTime t s))
     = unhandled_rejections s
         + (if fst (poll parse location env k requestId startTime t s) = Some ByRejection then 1 else 0)"
proof (induction k t s rule: poll_induct [where env = env and startTime = startTime
         and parse = parse and requestId = requestId and location = location])
  case (Unanswered k t s)
  then show ?case
    by (simp add: poll_unanswered periodicFetchCallback_def)
next
  case (Rejected k t s)
  then show ?case
    by (simp add: poll_rejected periodicFetchCallback_reject_def periodicFetchCallback_def)
next
  case (Stop k t s content latency lag)
  then show ?case
    by (simp add: poll_stop periodicFetchCallback_resume_def periodicFetchCallback_def
          split: option.splits)
next
  case (Retry k t s content latency lag)
  then show ?case
    by (simp add: poll_retry periodicFetchCallback_resume_def periodicFetchCallback_def)
qed

lemma poll_count:
  "length (poll_times parse location env k requestId startTime t s)
     \<le> nat ((startTime + FETCH_TIMEOUT - t + 499) div 500) + 1"
proof (induction k t s rule: poll_induct [where env = env and startTime = startTime
         and parse = parse and requestId = requestId and location = location])
  case (Unanswered k t s)
  then show ?case by (simp add: poll_times_end)
next
  case (Rejected k t s)
  then show ?case by (simp add: poll_times_end)
next
  case (Stop k t s content latency lag)
  then show ?case by (simp add: poll_times_end)
next
  case (Retry k t s content latency lag)
  let ?t' = "t + int latency + FETCH_INTERVAL + int lag"
  have "t < startTime + FETCH_TIMEOUT" "t + 500 \<le> ?t'"
    using Retry(1,2) by (simp_all add: FETCH_INTERVAL_def)
  then have "nat ((startTime + FETCH_TIMEOUT - ?t' + 499) div 500) + 1
      \<le> nat ((startTime + FETCH_TIMEOUT - t + 499) div 500)"
    by (simp add: FETCH_INTERVAL_def)
  then show ?case
    using Retry by (simp add: poll_times_retry)
qed

text \<open>
  The shape of a sequence: every request after the first is brought about by the
  reply to the one before it, the reply to the last request brings about no other,
  and it decides how the sequence ends, if it does.
\<close>

lemma poll_route:
  "(\<forall>i. Suc i < length (poll_times parse location env k requestId startTime t s)
        \<longrightarrow> follows startTime (env (k + i))
              (poll_times parse location env k requestId startTime t s ! i)
              (poll_times parse location env k requestId startTime t s ! Suc i))
   \<and> \<not> retries startTime (env (k + (length (poll_times parse location env k requestId startTime t s) - 1)))
         (last (poll_times parse location env k requestId startTime t s))
   \<and> fst (poll parse location env k requestId startTime t s)
       = route_of (env (k + (length (poll_times parse location env k requestId startTime t s) - 1)))"
proof (induction k t s rule: poll_induct [where env = env and startTime = startTime
         and parse = parse and requestId = requestId and location = location])
  case (Unanswered k t s)
  then show ?case by (simp add: poll_times_end poll_unanswered)
next
  case (Rejected k t s)
  then show ?case by (simp add: poll_times_end poll_rejected)
next
  case (Stop k t s content latency lag)
  then show ?case by (simp add: poll_times_end poll_stop)
next
  case (Retry k t s content latency lag)
  let ?s2 = "periodicFetchCallback_resume parse requestId startTime content (t + int latency)
               (periodicFetchCallback location requestId startTime t s)"
  let ?t' = "t + int latency + FETCH_INTERVAL + int lag"
  let ?ts' = "poll_times parse location env (Suc k) requestId startTime ?t' ?s2"
  obtain ts where ts: "?ts' = ?t' # ts"
    using poll_times_hd by blast
  have unfold: "poll_times parse location env k requestId startTime t s = t # ?ts'"
    using Retry(1,2) by (rule poll_times_retry)
  have same: "poll parse location env k requestId startTime t s
      = poll parse location env (Suc k) requestId startTime ?t' ?s2"
    using Retry(1,2) by (rule poll_retry)
  have earlier: "follows startTime (env (k + i)) ((t # ?ts') ! i) ((t # ?ts') ! Suc i)"
    if "Suc i < length (t # ?ts')" for i
  proof (cases i)
    case 0
    have "follows startTime (env k) t ?t'"
      using Retry(1,2) by simp
    then show ?thesis using 0 by (simp add: ts)
  next
    case (Suc j)
    then have "Suc j < length ?ts'" using that by simp
    then have "follows startTime (env (Suc k + j)) (?ts' ! j) (?ts' ! Suc j)"
      using Retry(3) by blast
    then show ?thesis using Suc by simp
  qed
  have idx: "k + (length (t # ?ts') - 1) = Suc k + (length ?ts' - 1)"
    by (simp add: ts)
  have lst: "last (t # ?ts') = last ?ts'"
    by (simp add: ts)
  show ?case
    unfolding unfold same idx lst using earlier Retry(3) unfolding unfold by blast
qed

lemma follows_in_time:
  "follows startTime r t t' \<Longrightarrow> retries startTime r t \<and> \<not> timed_out startTime r t"
  by (cases r) auto

lemma route_of_reply:
  "\<not> retries startTime r t \<Longrightarrow>
   (route_of r = Some ByData) = has_data r
   \<and> (route_of r = Some ByTimeout) = timed_out startTime r t
   \<and> (route_of r = Some ByRejection) = (r = Rejected)
   \<and> (route_of r = None) = (r = Unanswered)"
  by (cases r) auto

text \<open>
  A poll sequence is one schedule of the event loop: the state it is left in is the
  one the event loop reaches, from the first request, by responses, rejections and
  timers of this ticket alone.
\<close>

lemma poll_is_a_run:
  "\<exists>evs. snd (poll parse location env k requestId startTime t s)
            = run parse location evs (periodicFetchCallback location requestId startTime t s)
         \<and> list_all (\<lambda>e. ticket_of e = requestId \<and> \<not> is_create e) evs"
proof (induction k t s rule: poll_induct [where env = env and startTime = startTime
         and parse = parse and requestId = requestId and location = location])
  case (Unanswered k t s)
  let ?s1 = "periodicFetchCallback location requestId startTime t s"
  have "snd (poll parse location env k requestId startTime t s) = run parse location [] ?s1"
    using Unanswered by (simp add: poll_unanswered run_def)
  moreover have "list_all (\<lambda>e. ticket_of e = requestId \<and> \<not> is_create e) []"
    by simp
  ultimately show ?case by blast
next
  case (Rejected k t s)
  let ?s1 = "periodicFetchCallback location requestId startTime t s"
  have "step parse location (Rejection requestId) ?s1 = periodicFetchCallback_reject requestId ?s1"
    by (simp add: periodicFetchCallback_def)
  then have "snd (poll parse location env k requestId startTime t s)
      = run parse location [Rejection requestId] ?s1"
    using Rejected by (simp add: poll_rejected run_def)
  moreover have "list_all (\<lambda>e. ticket_of e = requestId \<and> \<not> is_create e) [Rejection requestId]"
    by simp
  ultimately show ?case by blast
next
  case (Stop k t s content latency lag)
  let ?s1 = "periodicFetchCallback location requestId startTime t s"
  have "step parse location (Response requestId content (t + int latency)) ?s1
      = periodicFetchCallback_resume parse requestId startTime content (t + int latency) ?s1"
    by (simp add: periodicFetchCallback_def)
  then have "snd (poll parse location env k requestId startTime t s)
      = run parse location [Response requestId content (t + int latency)] ?s1"
    using Stop by (simp add: poll_stop run_def)
  moreover have "list_all (\<lambda>e. ticket_of e = requestId \<and> \<not> is_create e)
      [Response requestId content (t + int latency)]"
    by simp
  ultimately show ?case by blast
next
  case (Retry k t s content latency lag)
  let ?s1 = "periodicFetchCallback location requestId startTime t s"
  let ?s2 = "periodicFetchCallback_resume parse requestId startTime content (t + int latency) ?s1"
  let ?t' = "t + int latency + FETCH_INTERVAL + int lag"
  obtain evs where evs: "snd (poll parse location env (Suc k) requestId startTime ?t' ?s2)
        = run parse location evs (periodicFetchCallback location requestId startTime ?t' ?s2)"
      "list_all (\<lambda>e. ticket_of e = requestId \<and> \<not> is_create e) evs"
    using Retry(3) by blast
  have r: "step parse location (Response requestId content (t + int latency)) ?s1 = ?s2"
    by (simp add: periodicFetchCallback_def)
  have "tickets ?s2 requestId = Some (AwaitingTimer startTime (t + int latency + FETCH_INTERVAL))"
    using Retry(1,2) by (simp add: ticket_resume)
  then have tm: "step parse location (Timer requestId ?t') ?s2
      = periodicFetchCallback location requestId startTime ?t' ?s2"
    by simp
  have "snd (poll parse location env k requestId startTime t s)
      = run parse location (Response requestId content (t + int latency) # Timer requestId ?t' # evs) ?s1"
    using Retry(1,2) evs(1) by (simp only: poll_retry run_Cons r tm)
  moreover have "list_all (\<lambda>e. ticket_of e = requestId \<and> \<not> is_create e)
      (Response requestId content (t + int latency) # Timer requestId ?t' # evs)"
    using evs(2) by simp
  ultimately show ?case by blast
qed

text \<open>
  A request that is pending stays pending, and no request is issued for the ticket,
  whatever else happens and however much time passes, until it is answered or
  rejected: the timeout of the provider is not tested while the function is suspended.
\<close>

lemma step_pending:
  assumes "tickets s requestId = Some (AwaitingResponse startTime)"
    and "ticket_of e = requestId \<longrightarrow> \<not> is_answer e"
  shows "ticket_view requestId (step parse location e s) = ticket_view requestId s"
proof (cases "ticket_of e = requestId")
  case False
  then show ?thesis by (rule step_other_ticket)
next
  case True
  then have "step parse location e s = s"
    using assms by (cases e) auto
  then show ?thesis by simp
qed

lemma run_pending:
  "tickets s requestId = Some (AwaitingResponse startTime)
     \<Longrightarrow> \<forall>e \<in> set evs. ticket_of e = requestId \<longrightarrow> \<not> is_answer e
     \<Longrightarrow> ticket_view requestId (run parse location evs s) = ticket_view requestId s"
proof (induction evs arbitrary: s)
  case Nil
  then show ?case by (simp add: run_def)
next
  case (Cons e evs)
  have v: "ticket_view requestId (step parse location e s) = ticket_view requestId s"
    using Cons.prems by (intro step_pending) auto
  then have "tickets (step parse location e s) requestId = Some (AwaitingResponse startTime)"
    using Cons.prems(1) by (simp add: ticket_view_def)
  then have "ticket_view requestId (run parse location evs (step parse location e s))
      = ticket_view requestId (step parse location e s)"
    using Cons.prems(2) by (intro Cons.IH) auto
  then show ?case
    using v by (simp add: run_Cons)
qed

text \<open>
  C2, as the specification states it: no request once five minutes have passed since
  \<open>startTime\<close>. With a server that answers each request with an empty body after
  299999 ms, the first response still comes in time, and the second request goes out
  500 ms later: 300499 ms after \<open>startTime\<close>.
\<close>

theorem poll_after_five_minutes:
  "poll_times toy_parse here slow_server 0 ''r-1'' 0 0 idle = [0, 300499]
   \<and> \<not> has_data (slow_server 0) \<and> \<not> has_data (slow_server 1)
   \<and> FETCH_TIMEOUT \<le> 300499 - 0"
  by (simp add: poll_times_def poll.simps slow_server_def idle_def periodicFetchCallback_def
        periodicFetchCallback_resume_def FETCH_TIMEOUT_def FETCH_INTERVAL_def)

text \<open>
  C2, amended. For a ticket whose requests never bring a body that is not empty:
  every request after the first is brought about by an empty response to the request
  before it that was read less than 300000 ms after \<open>startTime\<close>, and goes out
  500 ms after that response was read, or later by the lag of the timer, so
  consecutive requests are at least 500 ms apart; an empty response read 300000 ms or
  more after \<open>startTime\<close> brings about no request, so that every request but the last
  goes out less than 300000 ms after \<open>startTime\<close> (the last one may go out after the
  five minutes, by the latency of the response before it and the 500 ms of the
  timer); there are at most as many requests as intervals fit into what is left of
  the five minutes, and one. Nothing is fired on \<open>onCallback\<close> and nothing is written
  to the console. The sequence expires exactly when the reply to its last request is
  an empty body read 300000 ms or more after \<open>startTime\<close>, and then no rejection is
  left unhandled and nothing is left suspended for the ticket.
\<close>

theorem quiet_ticket_polling:
  assumes "\<forall>j. \<not> has_data (env j)"
  shows "spaced (poll_times parse location env k requestId startTime t s)
    \<and> (\<forall>i. Suc i < length (poll_times parse location env k requestId startTime t s)
          \<longrightarrow> follows startTime (env (k + i))
                (poll_times parse location env k requestId startTime t s ! i)
                (poll_times parse location env k requestId startTime t s ! Suc i))
    \<and> (\<forall>i. i < length (poll_times parse location env k requestId startTime t s)
            \<and> timed_out startTime (env (k + i)) (poll_times parse location env k requestId startTime t s ! i)
          \<longrightarrow> Suc i = length (poll_times parse location env k requestId startTime t s))
    \<and> \<not> retries startTime
           (env (k + (length (poll_times parse location env k requestId startTime t s) - 1)))
           (last (poll_times parse location env k requestId startTime t s))
    \<and> list_all (\<lambda>t'. t' - startTime < FETCH_TIMEOUT)
         (butlast (poll_times parse location env k requestId startTime t s))
    \<and> length (poll_times parse location env k requestId startTime t s)
        \<le> nat ((startTime + FETCH_TIMEOUT - t + 499) div 500) + 1
    \<and> requests (snd (poll parse location env k requestId startTime t s))
        = requests s @ map (fetch location requestId) (poll_times parse location env k requestId startTime t s)
    \<and> fired (snd (poll parse location env k requestId startTime t s)) = fired s
    \<and> console_errors (snd (poll parse location env k requestId startTime t s)) = console_errors s
    \<and> fst (poll parse location env k requestId startTime t s) \<noteq> Some ByData
    \<and> (fst (poll parse location env k requestId startTime t s) = Some ByTimeout)
        = timed_out startTime
            (env (k + (length (poll_times parse location env k requestId startTime t s) - 1)))
            (last (poll_times parse location env k requestId startTime t s))
    \<and> (fst (poll parse location env k requestId startTime t s) = Some ByTimeout
        \<longrightarrow> unhandled_rejections (snd (poll parse location env k requestId startTime t s))
              = unhandled_rejections s
            \<and> tickets (snd (poll parse location env k requestId startTime t s)) requestId = None)"
proof -
  let ?ts = "poll_times parse location env k requestId startTime t s"
  let ?P = "poll parse location env k requestId startTime t s"
  let ?r = "env (k + (length ?ts - 1))"
  have route: "(\<forall>i. Suc i < length ?ts \<longrightarrow> follows startTime (env (k + i)) (?ts ! i) (?ts ! Suc i))
      \<and> \<not> retries startTime ?r (last ?ts) \<and> fst ?P = route_of ?r"
    by (rule poll_route)
  have stop: "Suc i = length ?ts" if "i < length ?ts" "timed_out startTime (env (k + i)) (?ts ! i)" for i
  proof (rule ccontr)
    assume "Suc i \<noteq> length ?ts"
    then have "Suc i < length ?ts" using that(1) by simp
    then have "follows startTime (env (k + i)) (?ts ! i) (?ts ! Suc i)"
      using route by blast
    then show False
      using that(2) follows_in_time by blast
  qed
  have expiry: "(fst ?P = Some ByTimeout) = timed_out startTime ?r (last ?ts)"
    using route route_of_reply [of startTime ?r "last ?ts"] by simp
  have after: "unhandled_rejections (snd ?P) = unhandled_rejections s \<and> tickets (snd ?P) requestId = None"
    if "fst ?P = Some ByTimeout"
    using that poll_unhandled [of parse location env k requestId startTime t s]
      poll_ticket [of parse location env k requestId startTime t s]
    by simp
  show ?thesis
    using poll_spaced [of parse location env k requestId startTime t s]
      poll_deadline [of startTime parse location env k requestId t s]
      poll_count [of parse location env k requestId startTime t s]
      requests_poll [of parse location env k requestId startTime t s]
      poll_silent [OF assms, of parse location k requestId startTime t s]
      route stop expiry after
    by blast
qed

theorem quiet_ticket_polling_witness:
  "spaced (poll_times toy_parse here slow_server 0 ''r-1'' 0 0 idle)
   \<and> length (poll_times toy_parse here slow_server 0 ''r-1'' 0 0 idle) \<le> 601
   \<and> fired (snd (poll toy_parse here slow_server 0 ''r-1'' 0 0 idle)) = []
   \<and> fst (poll toy_parse here slow_server 0 ''r-1'' 0 0 idle) = Some ByTimeout
   \<and> unhandled_rejections (snd (poll toy_parse here slow_server 0 ''r-1'' 0 0 idle)) = 0
   \<and> tickets (snd (poll toy_parse here slow_server 0 ''r-1'' 0 0 idle)) ''r-1'' = None"
proof -
  have quiet: "\<forall>j. \<not> has_data (slow_server j)"
    by (simp add: slow_server_def)
  have ts: "poll_times toy_parse here slow_server 0 ''r-1'' 0 0 idle = [0, 300499]"
    by (simp add: poll_times_def poll.simps slow_server_def idle_def periodicFetchCallback_def
          periodicFetchCallback_resume_def FETCH_TIMEOUT_def FETCH_INTERVAL_def)
  have late: "timed_out 0 (slow_server (0 + (length [0::int, 300499] - 1))) (last [0, 300499])"
    by (simp add: slow_server_def FETCH_TIMEOUT_def)
  have "fired idle = [] \<and> unhandled_rejections idle = 0"
    by (simp add: idle_def)
  then show ?thesis
    using quiet_ticket_polling [OF quiet, of toy_parse here 0 "''r-1''" 0 0 idle] late
    by (simp add: ts FETCH_TIMEOUT_def)
qed

text \<open>
  C4, as the specification states it: a sequence ends by callback data or by the
  timeout, and in no other way. A request that fails ends it as well: the rejection
  goes unhandled, no timer is set, nothing was received and no time has passed.
\<close>

theorem rejection_ends_sequence:
  "fst (poll toy_parse here failing_server 0 ''r-1'' 0 0 idle) = Some ByRejection
   \<and> tickets (snd (poll toy_parse here failing_server 0 ''r-1'' 0 0 idle)) ''r-1'' = None
   \<and> unhandled_rejections (snd (poll toy_parse here failing_server 0 ''r-1'' 0 0 idle)) = 1
   \<and> poll_times toy_parse here failing_server 0 ''r-1'' 0 0 idle = [0]
   \<and> \<not> has_data (failing_server 0) \<and> \<not> timed_out 0 (failing_server 0) 0"
  by (simp add: poll_times_def poll.simps failing_server_def idle_def periodicFetchCallback_def
        periodicFetchCallback_reject_def)

text \<open>
  C4, amended. A poll sequence ends at most once, and it ends exactly when the last
  of its requests is answered or rejected, as it is when every request is: the
  replies to all requests but the last make it set a timer, the reply to the last
  one does not, and leaves nothing suspended for the ticket, so that no later
  response, rejection or timer for it does anything. It ends by exactly one of three
  routes, which that reply decides: by data when it is a body that is not empty, by
  the timeout when it is an empty body read 300000 ms or more after \<open>startTime\<close>,
  and by rejection when the request failed. A sequence whose last request is never
  answered does not end: the request stays pending and no other request is issued
  for the ticket, whatever else happens and however much time passes.
\<close>

theorem poll_ends_once:
  "(\<forall>i. Suc i < length (poll_times parse location env k requestId startTime t s)
        \<longrightarrow> follows startTime (env (k + i))
              (poll_times parse location env k requestId startTime t s ! i)
              (poll_times parse location env k requestId startTime t s ! Suc i))
   \<and> \<not> retries startTime
          (env (k + (length (poll_times parse location env k requestId startTime t s) - 1)))
          (last (poll_times parse location env k requestId startTime t s))
   \<and> (fst (poll parse location env k requestId startTime t s) = Some ByData)
       = has_data (env (k + (length (poll_times parse location env k requestId startTime t s) - 1)))
   \<and> (fst (poll parse location env k requestId startTime t s) = Some ByTimeout)
       = timed_out startTime
           (env (k + (length (poll_times parse location env k requestId startTime t s) - 1)))
           (last (poll_times parse location env k requestId startTime t s))
   \<and> (fst (poll parse location env k requestId startTime t s) = Some ByRejection)
       = (env (k + (length (poll_times parse location env k requestId startTime t s) - 1)) = Rejected)
   \<and> (fst (poll parse location env k requestId startTime t s) = None)
       = (env (k + (length (poll_times parse location env k requestId startTime t s) - 1)) = Unanswered)
   \<and> tickets (snd (poll parse location env k requestId startTime t s)) requestId
       = (if fst (poll parse location env k requestId startTime t s) = None
          then Some (AwaitingResponse startTime) else None)
   \<and> ((\<forall>j. env j \<noteq> Unanswered)
       \<longrightarrow> fst (poll parse location env k requestId startTime t s) \<noteq> None
           \<and> tickets (snd (poll parse location env k requestId startTime t s)) requestId = None)
   \<and> (fst (poll parse location env k requestId startTime t s) \<noteq> None
         \<and> ticket_of e = requestId \<and> \<not> is_create e
       \<longrightarrow> step parse location e (snd (poll parse location env k requestId startTime t s))
           = snd (poll parse location env k requestId startTime t s))
   \<and> (fst (poll parse location env k requestId startTime t s) = None
         \<and> (\<forall>e \<in> set evs. ticket_of e = requestId \<longrightarrow> \<not> is_answer e)
       \<longrightarrow> ticket_view requestId (run parse location evs (snd (poll parse location env k requestId startTime t s)))
           = ticket_view requestId (snd (poll parse location env k requestId startTime t s)))"
proof -
  let ?ts = "poll_times parse location env k requestId startTime t s"
  let ?r = "env (k + (length ?ts - 1))"
  let ?P = "poll parse location env k requestId startTime t s"
  have ticket: "tickets (snd ?P) requestId
      = (if fst ?P = None then Some (AwaitingResponse startTime) else None)"
    by (rule poll_ticket)
  have route: "(\<forall>i. Suc i < length ?ts \<longrightarrow> follows startTime (env (k + i)) (?ts ! i) (?ts ! Suc i))
      \<and> \<not> retries startTime ?r (last ?ts) \<and> fst ?P = route_of ?r"
    by (rule poll_route)
  have routes: "(fst ?P = Some ByData) = has_data ?r
      \<and> (fst ?P = Some ByTimeout) = timed_out startTime ?r (last ?ts)
      \<and> (fst ?P = Some ByRejection) = (?r = Rejected)
      \<and> (fst ?P = None) = (?r = Unanswered)"
    using route route_of_reply [of startTime ?r "last ?ts"] by simp
  have answered: "fst ?P \<noteq> None \<and> tickets (snd ?P) requestId = None" if "\<forall>j. env j \<noteq> Unanswered"
    using that routes ticket by simp
  have ended: "step parse location e (snd ?P) = snd ?P"
    if "fst ?P \<noteq> None" "ticket_of e = requestId" "\<not> is_create e"
  proof -
    have "tickets (snd ?P) requestId = None"
      using that(1) ticket by simp
    then show ?thesis
      using that(2,3) by (rule step_ended_ticket)
  qed
  have pending: "ticket_view requestId (run parse location evs (snd ?P)) = ticket_view requestId (snd ?P)"
    if "fst ?P = None" "\<forall>e \<in> set evs. ticket_of e = requestId \<longrightarrow> \<not> is_answer e"
  proof -
    have "tickets (snd ?P) requestId = Some (AwaitingResponse startTime)"
      using that(1) ticket by simp
    then show ?thesis
      using that(2) by (rule run_pending)
  qed
  show ?thesis
    using ticket route routes answered ended pending by blast
qed

theorem poll_ends_once_witness:
  "fst (poll toy_parse here data_server 0 ''r-1'' 0 0 idle) = Some ByData
   \<and> poll_times toy_parse here data_server 0 ''r-1'' 0 0 idle = [0, 600]
   \<and> has_data (data_server (0 + (length (poll_times toy_parse here data_server 0 ''r-1'' 0 0 idle) - 1)))
   \<and> fired (snd (poll toy_parse here data_server 0 ''r-1'' 0 0 idle)) = [''{}'']
   \<and> tickets (snd (poll toy_parse here data_server 0 ''r-1'' 0 0 idle)) ''r-1'' = None
   \<and> step toy_parse here (Timer ''r-1'' 5000) (snd (poll toy_parse here data_server 0 ''r-1'' 0 0 idle))
       = snd (poll toy_parse here data_server 0 ''r-1'' 0 0 idle)
   \<and> fst (poll toy_parse here mute_server 0 ''r-1'' 0 0 idle) = None
   \<and> tickets (snd (poll toy_parse here mute_server 0 ''r-1'' 0 0 idle)) ''r-1''
       = Some (AwaitingResponse 0)
   \<and> ticket_view ''r-1''
        (run toy_parse here [Timer ''r-1'' 900000, Create None ''r-2'' 900001, Timer ''r-1'' 1800000]
           (snd (poll toy_parse here mute_server 0 ''r-1'' 0 0 idle)))
       = ticket_view ''r-1'' (snd (poll toy_parse here mute_server 0 ''r-1'' 0 0 idle))"
proof -
  have ts: "poll_times toy_parse here data_server 0 ''r-1'' 0 0 idle = [0, 600]"
    by (simp add: poll_times_def poll.simps data_server_def idle_def periodicFetchCallback_def
          periodicFetchCallback_resume_def FETCH_TIMEOUT_def FETCH_INTERVAL_def toy_parse_def)
  have f: "fired (snd (poll toy_parse here data_server 0 ''r-1'' 0 0 idle)) = [''{}'']"
    by (simp add: poll.simps data_server_def idle_def periodicFetchCallback_def
          periodicFetchCallback_resume_def FETCH_TIMEOUT_def FETCH_INTERVAL_def toy_parse_def)
  have d: "has_data (data_server (0 + (length [0::int, 600] - 1)))"
    by (simp add: data_server_def)
  have all: "\<forall>j. data_server j \<noteq> Unanswered"
    by (simp add: data_server_def)
  have ts2: "poll_times toy_parse here mute_server 0 ''r-1'' 0 0 idle = [0, 600]"
    by (simp add: poll_times_def poll.simps mute_server_def idle_def periodicFetchCallback_def
          periodicFetchCallback_resume_def FETCH_TIMEOUT_def FETCH_INTERVAL_def toy_parse_def)
  have m: "mute_server (0 + (length [0::int, 600] - 1)) = Unanswered"
    by (simp add: mute_server_def)
  have quiet: "\<forall>e \<in> set [Timer ''r-1'' 900000, Create None ''r-2'' 900001, Timer ''r-1'' 1800000].
      ticket_of e = ''r-1'' \<longrightarrow> \<not> is_answer e"
    by simp
  have 1: "fst (poll toy_parse here data_server 0 ''r-1'' 0 0 idle) = Some ByData
      \<and> tickets (snd (poll toy_parse here data_server 0 ''r-1'' 0 0 idle)) ''r-1'' = None
      \<and> step toy_parse here (Timer ''r-1'' 5000) (snd (poll toy_parse here data_server 0 ''r-1'' 0 0 idle))
          = snd (poll toy_parse here data_server 0 ''r-1'' 0 0 idle)"
    using poll_ends_once [of toy_parse here data_server 0 "''r-1''" 0 0 idle "Timer ''r-1'' 5000" "[]"]
      d all unfolding ts by simp
  have 2: "fst (poll toy_parse here mute_server 0 ''r-1'' 0 0 idle) = None
      \<and> tickets (snd (poll toy_parse here mute_server 0 ''r-1'' 0 0 idle)) ''r-1''
          = Some (AwaitingResponse 0)
      \<and> ticket_view ''r-1''
           (run toy_parse here [Timer ''r-1'' 900000, Create None ''r-2'' 900001, Timer ''r-1'' 1800000]
              (snd (poll toy_parse here mute_server 0 ''r-1'' 0 0 idle)))
          = ticket_view ''r-1'' (snd (poll toy_parse here mute_server 0 ''r-1'' 0 0 idle))"
    using poll_ends_once [of toy_parse here mute_server 0 "''r-1''" 0 0 idle "Timer ''r-1'' 5000"
        "[Timer ''r-1'' 900000, Create None ''r-2'' 900001, Timer ''r-1'' 1800000]"]
      m quiet unfolding ts2 by simp
  show ?thesis
    using 1 2 d f by (simp add: ts)
qed

end
